theory Spec2Isabelle
  imports Complex_Main "HOL-Library.AList" "HOL-Library.Char_ord" "HOL-Library.List_Lexorder"
    "HOL-Library.Monad_Syntax"
begin

chapter \<open>The embedding\<close>

section \<open>Go integers\<close>

text \<open>
  Go's \<^verbatim>\<open>int64\<close> (and \<^verbatim>\<open>int\<close> on a 64-bit platform) is modelled as an
  \<^typ>\<open>int\<close> with the two's-complement wrap-around written out: \<open>i64\<close> is applied
  to the result of every addition and subtraction the source performs on such values.
  Integer division truncates towards zero and a zero divisor panics.
\<close>

definition MaxInt64 :: int where
  "MaxInt64 = 2 ^ 63 - 1"

definition MinInt64 :: int where
  "MinInt64 = - (2 ^ 63)"

definition i64 :: "int \<Rightarrow> int" where
  "i64 x = (x + 2 ^ 63) mod 2 ^ 64 - 2 ^ 63"

definition in_i64 :: "int \<Rightarrow> bool" where
  "in_i64 x = (MinInt64 \<le> x \<and> x \<le> MaxInt64)"

definition quo :: "int \<Rightarrow> int \<Rightarrow> int" where
  "quo a b = i64 (sgn a * sgn b * (\<bar>a\<bar> div \<bar>b\<bar>))"

definition rem :: "int \<Rightarrow> int \<Rightarrow> int" where
  "rem a b = sgn a * (\<bar>a\<bar> mod \<bar>b\<bar>)"

section \<open>pkg/retry: the retry manager\<close>

text \<open>
  A \<^verbatim>\<open>time.Duration\<close> is a count of nanoseconds. An \<^verbatim>\<open>error\<close> is
  represented by the text its \<^verbatim>\<open>Error()\<close> method returns, which is all the
  retry manager reads of it.
\<close>

type_synonym Duration = int

definition Second :: Duration where
  "Second = 1000000000"

definition Minute :: Duration where
  "Minute = 60 * Second"

record Config =
  MaxRetries :: int
  BaseDelay :: Duration
  MaxDelay :: Duration
  BackoffFactor :: real
  JitterRange :: real
  RetryableErrors :: "string list"

record RetryManager =
  maxRetries :: int
  baseDelay :: Duration
  maxDelay :: Duration
  backoffFactor :: real
  jitterRange :: real
  retryableErrors :: "string list"

definition NewRetryManager :: "Config \<Rightarrow> RetryManager" where
  "NewRetryManager config =
     (let config = (if MaxRetries config = 0 then config\<lparr>MaxRetries := - 1\<rparr> else config);
          config = (if BaseDelay config = 0 then config\<lparr>BaseDelay := 1 * Second\<rparr> else config);
          config = (if MaxDelay config = 0 then config\<lparr>MaxDelay := 5 * Minute\<rparr> else config);
          config = (if BackoffFactor config = 0 then config\<lparr>BackoffFactor := 2\<rparr> else config);
          config = (if JitterRange config = 0 then config\<lparr>JitterRange := 1 / 10\<rparr> else config)
      in \<lparr>maxRetries = MaxRetries config,
          baseDelay = BaseDelay config,
          maxDelay = MaxDelay config,
          backoffFactor = BackoffFactor config,
          jitterRange = JitterRange config,
          retryableErrors = RetryableErrors config\<rparr>)"

text \<open>
  \<^verbatim>\<open>containsSubstring\<close> compares the slice \<^verbatim>\<open>str[i:i+len(substr)]\<close> with
  \<^verbatim>\<open>substr\<close> for \<open>i\<close> from 0 to \<^verbatim>\<open>len(str)-len(substr)\<close>; the loop body
  never runs when that bound is negative.
\<close>

definition containsSubstring :: "string \<Rightarrow> string \<Rightarrow> bool" where
  "containsSubstring str substr =
     (length substr \<le> length str \<and>
      list_ex (\<lambda>i. take (length substr) (drop i str) = substr)
        [0 ..< length str - length substr + 1])"

definition containsString :: "string \<Rightarrow> string \<Rightarrow> bool" where
  "containsString str substr =
     (length str \<ge> length substr \<and>
      (substr = [] \<or> str = substr \<or> containsSubstring str substr))"

definition IsRetryableError :: "RetryManager \<Rightarrow> string \<Rightarrow> bool" where
  "IsRetryableError rm err =
     (if length (retryableErrors rm) = 0 then True
      else list_ex (\<lambda>retryableErr. containsString err retryableErr) (retryableErrors rm))"

definition shouldRetry :: "RetryManager \<Rightarrow> string \<Rightarrow> int \<Rightarrow> bool" where
  "shouldRetry rm err attempt =
     (if maxRetries rm > 0 \<and> attempt \<ge> maxRetries rm then False
      else if length (retryableErrors rm) = 0 then True
      else list_ex (\<lambda>retryableErr. containsString err retryableErr) (retryableErrors rm))"

text \<open>
  \<^verbatim>\<open>calculateDelay\<close> computes two expressions in \<^verbatim>\<open>float64\<close> and
  converts each to a \<^verbatim>\<open>time.Duration\<close>. The arithmetic of \<^verbatim>\<open>float64\<close> (the
  rounding of every operation, the algorithm of \<^verbatim>\<open>math.Pow\<close>, overflow to an
  infinity) and the conversion of a value outside \<^verbatim>\<open>int64\<close>, whose result Go
  leaves to the implementation, are not modelled. The model takes the value of each
  expression as the platform computes it: for a platform \<open>fl\<close>,

    \<^item> \<open>backoffOf fl base factor e\<close> is the value of
      \<^verbatim>\<open>time.Duration(float64(base) * math.Pow(factor, float64(e)))\<close>, and

    \<^item> \<open>jitterOf fl delay j rnd\<close> is the value of
      \<^verbatim>\<open>time.Duration(float64(delay) * j * (rnd*2 - 1))\<close>,

  where \<open>rnd\<close> is what \<^verbatim>\<open>rand.Float64()\<close> returns, a number in the half-open
  interval from 0 to 1. The comparisons and the additions of durations are those of
  \<^verbatim>\<open>int64\<close>; \<^verbatim>\<open>delay += jitter\<close> wraps around.
\<close>

record float64_eval =
  backoffOf :: "Duration \<Rightarrow> real \<Rightarrow> int \<Rightarrow> Duration"
  jitterOf :: "Duration \<Rightarrow> real \<Rightarrow> real \<Rightarrow> Duration"

definition calculateDelay :: "float64_eval \<Rightarrow> RetryManager \<Rightarrow> int \<Rightarrow> real \<Rightarrow> Duration" where
  "calculateDelay fl rm attempt rnd =
     (let delay = backoffOf fl (baseDelay rm) (backoffFactor rm) (attempt - 1);
          delay = (if delay > maxDelay rm then maxDelay rm else delay);
          delay = (if jitterRange rm > 0
                   then (let jitter = jitterOf fl delay (jitterRange rm) rnd
                         in i64 (delay + jitter))
                   else delay)
      in if delay < 0 then baseDelay rm else delay)"

text \<open>
  The two expressions in exact arithmetic: the product and the power are those of the
  real numbers, and the conversion discards the fraction. \<^verbatim>\<open>float64\<close> gives these
  values whenever every intermediate result is a number that \<^verbatim>\<open>float64\<close> represents
  and the value converted lies within \<^verbatim>\<open>int64\<close>; elsewhere it need not (one second
  times the \<^verbatim>\<open>float64\<close> nearest to 1.2 is 1200000000 nanoseconds in
  \<^verbatim>\<open>float64\<close> and 1199999999 in exact arithmetic, and one second times
  \<open>2 ^ 34\<close> is beyond \<^verbatim>\<open>int64\<close>).
\<close>

definition exactTrunc :: "real \<Rightarrow> int" where
  "exactTrunc x = (if 0 \<le> x then \<lfloor>x\<rfloor> else \<lceil>x\<rceil>)"

definition exactPow :: "real \<Rightarrow> int \<Rightarrow> real" where
  "exactPow x e = (if 0 \<le> e then x ^ nat e else 1 / x ^ nat (- e))"

definition exactBackoff :: "Duration \<Rightarrow> real \<Rightarrow> int \<Rightarrow> Duration" where
  "exactBackoff base factor e = exactTrunc (real_of_int base * exactPow factor e)"

definition exactJitter :: "Duration \<Rightarrow> real \<Rightarrow> real \<Rightarrow> Duration" where
  "exactJitter delay j rnd = exactTrunc (real_of_int delay * j * (rnd * 2 - 1))"

definition exactFloat :: float64_eval where
  "exactFloat = \<lparr>backoffOf = exactBackoff, jitterOf = exactJitter\<rparr>"

text \<open>
  \<^verbatim>\<open>ExecuteWithStats\<close> loops until the operation succeeds, the error is not to be
  retried, or the context is cancelled during a wait; it may loop for ever. The
  environment of one call is a record of three streams, indexed by the number of
  invocations of the operation made so far, and the platform's \<^verbatim>\<open>float64\<close>:
  \<open>fn k\<close> is what invocation \<open>k\<close> (counted from 0) returns, \<open>None\<close> for
  \<^verbatim>\<open>nil\<close>; \<open>cancelled k\<close> tells whether the \<^verbatim>\<open>select\<close> after that invocation
  takes the \<^verbatim>\<open>ctx.Done()\<close> branch rather than the timer's; \<open>rand k\<close> is the random
  number drawn for that wait. The result pairs
  the returned error with the final statistics; \<open>Calls\<close> counts the invocations of
  the operation. The statistics callback only observes the statistics and \<open>Execute\<close>
  passes none; it, the logging and the statistics' clock readings are left out.
\<close>

datatype exec_error =
    ExhaustedError int string
  | CancelledError

record RetryStats =
  Attempts :: int
  LastError :: "string option"
  CurrentDelay :: Duration
  Calls :: nat

record retry_env =
  fn :: "nat \<Rightarrow> string option"
  cancelled :: "nat \<Rightarrow> bool"
  rand :: "nat \<Rightarrow> real"
  floats :: float64_eval

partial_function (option) retry_loop ::
  "RetryManager \<Rightarrow> retry_env \<Rightarrow> int \<Rightarrow> RetryStats \<Rightarrow> (exec_error option \<times> RetryStats) option"
where
  "retry_loop rm env attempt stats =
     (let attempt = i64 (attempt + 1);
          stats = stats\<lparr>Attempts := attempt\<rparr>;
          k = Calls stats;
          stats = stats\<lparr>Calls := k + 1\<rparr>
      in case fn env k of
           None \<Rightarrow> Some (None, stats)
         | Some err \<Rightarrow>
             (let stats = stats\<lparr>LastError := Some err\<rparr>
              in if \<not> shouldRetry rm err attempt
                 then Some (Some (ExhaustedError attempt err), stats)
                 else (let delay = calculateDelay (floats env) rm attempt (rand env k);
                           stats = stats\<lparr>CurrentDelay := delay\<rparr>
                       in if cancelled env k
                          then Some (Some CancelledError, stats)
                          else retry_loop rm env attempt stats)))"

declare retry_loop.simps [code]

definition ExecuteWithStats ::
  "RetryManager \<Rightarrow> retry_env \<Rightarrow> (exec_error option \<times> RetryStats) option" where
  "ExecuteWithStats rm env =
     retry_loop rm env 0 \<lparr>Attempts = 0, LastError = None, CurrentDelay = 0, Calls = 0\<rparr>"

definition Execute :: "RetryManager \<Rightarrow> retry_env \<Rightarrow> (exec_error option \<times> RetryStats) option" where
  "Execute rm env = ExecuteWithStats rm env"

text \<open>Sample configurations and environments.\<close>

definition cfg_three :: Config where
  "cfg_three = \<lparr>MaxRetries = 3, BaseDelay = 0, MaxDelay = 0, BackoffFactor = 0,
     JitterRange = 0, RetryableErrors = []\<rparr>"

definition cfg_unbounded :: Config where
  "cfg_unbounded = \<lparr>MaxRetries = 0, BaseDelay = 0, MaxDelay = 0, BackoffFactor = 0,
     JitterRange = 0, RetryableErrors = []\<rparr>"

definition cfg_patterns :: Config where
  "cfg_patterns = \<lparr>MaxRetries = 3, BaseDelay = 0, MaxDelay = 0, BackoffFactor = 0,
     JitterRange = 0, RetryableErrors = [''timeout'', ''EOF'']\<rparr>"

definition cfg_negative :: Config where
  "cfg_negative = \<lparr>MaxRetries = 0, BaseDelay = - Second, MaxDelay = 0, BackoffFactor = 0,
     JitterRange = - (1 / 2), RetryableErrors = []\<rparr>"

definition always_fails :: "string \<Rightarrow> nat \<Rightarrow> string option" where
  "always_fails msg k = Some msg"

definition never :: "nat \<Rightarrow> bool" where
  "never k = False"

definition at_second :: "nat \<Rightarrow> bool" where
  "at_second k = (k = 1)"

definition half :: "nat \<Rightarrow> real" where
  "half k = 1 / 2"

definition env_denied :: retry_env where
  "env_denied = \<lparr>fn = always_fails ''permission denied'', cancelled = never, rand = half,
     floats = exactFloat\<rparr>"

definition env_timeout :: retry_env where
  "env_timeout = \<lparr>fn = always_fails ''i/o timeout'', cancelled = never, rand = half,
     floats = exactFloat\<rparr>"

definition env_cancel_second :: retry_env where
  "env_cancel_second = \<lparr>fn = always_fails ''i/o timeout'', cancelled = at_second, rand = half,
     floats = exactFloat\<rparr>"



section \<open>pkg/progress: the session tracker\<close>

text \<open>
  A \<^verbatim>\<open>time.Time\<close> is represented by the instant it denotes, in nanoseconds; the
  monotonic clock reading it may carry is not part of the persisted state and is left
  out. Every operation takes the reading \<open>now\<close> of the clock (\<^verbatim>\<open>time.Now()\<close>) as
  an argument, one instant for the readings taken within one call. The map \<^verbatim>\<open>Files\<close> is an association list with one entry per key:
  \<open>map_of\<close> looks a key up and \<open>AList.update\<close> stores a value under it. The map
  holds pointers to the per-file records, which the operations change in place; the model
  stores the changed record back under its key. The mutex, the logger and the auto-save
  goroutine are left out: each operation runs as one step under the lock.
\<close>

type_synonym Time = int

record FileProgress =
  FileName :: string
  fTotalSize :: int
  fUploadedSize :: int
  ChunksTotal :: int
  ChunksUploaded :: int
  fStartTime :: Time
  fLastUpdate :: Time
  fIsCompleted :: bool
  SHA1Hash :: string

record UploadSession =
  SessionID :: string
  OVAFile :: string
  ESXiHost :: string
  Datastore :: string
  VMName :: string
  TotalSize :: int
  UploadedSize :: int
  StartTime :: Time
  LastUpdate :: Time
  IsCompleted :: bool
  Files :: "(string \<times> FileProgress) list"
  RetryAttempts :: int

record Tracker =
  session :: UploadSession
  sessionFile :: string
  autoSave :: bool
  saveInterval :: Duration

definition NewTracker :: "Time \<Rightarrow> string \<Rightarrow> string \<Rightarrow> string \<Rightarrow> string \<Rightarrow> string \<Rightarrow> Tracker" where
  "NewTracker now sessionID ovaFile esxiHost datastore vmName =
     \<lparr>session = \<lparr>SessionID = sessionID, OVAFile = ovaFile, ESXiHost = esxiHost,
        Datastore = datastore, VMName = vmName, TotalSize = 0, UploadedSize = 0,
        StartTime = now, LastUpdate = now, IsCompleted = False, Files = [],
        RetryAttempts = 0\<rparr>,
      sessionFile = ''.upload-session-'' @ sessionID @ ''.json'',
      autoSave = True,
      saveInterval = 5 * Second\<rparr>"

definition trackerChunkSize :: int where
  "trackerChunkSize = 32 * 1024 * 1024"

definition AddFile :: "Time \<Rightarrow> string \<Rightarrow> int \<Rightarrow> string \<Rightarrow> Tracker \<Rightarrow> Tracker" where
  "AddFile now fileName totalSize sha1Hash t =
     (let chunkSize = trackerChunkSize;
          chunksTotal = quo (i64 (i64 (totalSize + chunkSize) - 1)) chunkSize;
          s = session t;
          s = s\<lparr>Files := AList.update fileName
                 \<lparr>FileName = fileName, fTotalSize = totalSize, fUploadedSize = 0,
                  ChunksTotal = chunksTotal, ChunksUploaded = 0, fStartTime = now,
                  fLastUpdate = now, fIsCompleted = False, SHA1Hash = sha1Hash\<rparr> (Files s)\<rparr>;
          s = s\<lparr>TotalSize := i64 (TotalSize s + totalSize)\<rparr>;
          s = s\<lparr>LastUpdate := now\<rparr>
      in t\<lparr>session := s\<rparr>)"

definition UpdateFileProgress :: "Time \<Rightarrow> string \<Rightarrow> int \<Rightarrow> Tracker \<Rightarrow> Tracker" where
  "UpdateFileProgress now fileName uploadedSize t =
     (let s = session t in
      case map_of (Files s) fileName of
        None \<Rightarrow> t
      | Some file \<Rightarrow>
          (let oldUploaded = fUploadedSize file;
               file = file\<lparr>fUploadedSize := uploadedSize\<rparr>;
               file = file\<lparr>fLastUpdate := now\<rparr>;
               chunkSize = trackerChunkSize;
               file = file\<lparr>ChunksUploaded := quo uploadedSize chunkSize\<rparr>;
               file = (if rem uploadedSize chunkSize > 0
                       then file\<lparr>ChunksUploaded := i64 (ChunksUploaded file + 1)\<rparr> else file);
               s = s\<lparr>UploadedSize := i64 (UploadedSize s + i64 (uploadedSize - oldUploaded))\<rparr>;
               s = s\<lparr>LastUpdate := now\<rparr>;
               file = (if uploadedSize \<ge> fTotalSize file
                       then file\<lparr>fIsCompleted := True\<rparr> else file)
           in t\<lparr>session := s\<lparr>Files := AList.update fileName file (Files s)\<rparr>\<rparr>))"

definition allCompleted :: "(string \<times> FileProgress) list \<Rightarrow> bool" where
  "allCompleted fs = list_all (\<lambda>(name, file). fIsCompleted file) fs"

definition MarkFileCompleted :: "Time \<Rightarrow> string \<Rightarrow> Tracker \<Rightarrow> Tracker" where
  "MarkFileCompleted now fileName t =
     (let s = session t;
          s = (case map_of (Files s) fileName of
                 None \<Rightarrow> s
               | Some file \<Rightarrow>
                   (let remaining = i64 (fTotalSize file - fUploadedSize file);
                        s = (if \<not> fIsCompleted file
                             then s\<lparr>UploadedSize := i64 (UploadedSize s + remaining)\<rparr> else s);
                        file = (if \<not> fIsCompleted file
                                then file\<lparr>fUploadedSize := fTotalSize file\<rparr> else file);
                        file = file\<lparr>fIsCompleted := True\<rparr>;
                        file = file\<lparr>ChunksUploaded := ChunksTotal file\<rparr>;
                        file = file\<lparr>fLastUpdate := now\<rparr>;
                        s = s\<lparr>LastUpdate := now\<rparr>
                    in s\<lparr>Files := AList.update fileName file (Files s)\<rparr>));
          s = (if allCompleted (Files s) then s\<lparr>IsCompleted := True\<rparr> else s)
      in t\<lparr>session := s\<rparr>)"

definition IncrementRetryAttempts :: "Time \<Rightarrow> Tracker \<Rightarrow> Tracker" where
  "IncrementRetryAttempts now t =
     (let s = session t;
          s = s\<lparr>RetryAttempts := i64 (RetryAttempts s + 1)\<rparr>;
          s = s\<lparr>LastUpdate := now\<rparr>
      in t\<lparr>session := s\<rparr>)"

definition GetFileProgress :: "Tracker \<Rightarrow> string \<Rightarrow> FileProgress option" where
  "GetFileProgress t fileName = map_of (Files (session t)) fileName"

text \<open>
  The two halves of \<open>MarkFileCompleted\<close>, named for the proofs: what it does to the
  record of the file, and to the session before the completion flag is looked at.
\<close>

definition markedFile :: "Time \<Rightarrow> FileProgress \<Rightarrow> FileProgress" where
  "markedFile now file =
     file\<lparr>fUploadedSize := (if fIsCompleted file then fUploadedSize file else fTotalSize file),
          fIsCompleted := True, ChunksUploaded := ChunksTotal file, fLastUpdate := now\<rparr>"

definition markedSession :: "Time \<Rightarrow> string \<Rightarrow> UploadSession \<Rightarrow> UploadSession" where
  "markedSession now fileName s =
     (case map_of (Files s) fileName of
        None \<Rightarrow> s
      | Some file \<Rightarrow>
          s\<lparr>UploadedSize :=
              (if fIsCompleted file then UploadedSize s
               else i64 (UploadedSize s + i64 (fTotalSize file - fUploadedSize file))),
            LastUpdate := now,
            Files := AList.update fileName (markedFile now file) (Files s)\<rparr>)"

text \<open>Sample trackers: states that calls of the public operations reach.\<close>

definition tr_one :: Tracker where
  "tr_one = AddFile 10 ''disk1.vmdk'' 100 [] (NewTracker 5 ''1'' ''vm.ova'' ''host'' ''ds'' ''vm'')"

definition tr_half :: Tracker where
  "tr_half = UpdateFileProgress 20 ''disk1.vmdk'' 50 tr_one"

definition tr_over :: Tracker where
  "tr_over = UpdateFileProgress 20 ''disk1.vmdk'' 150 tr_one"

definition tr_done_then_added :: Tracker where
  "tr_done_then_added = AddFile 40 ''disk2.vmdk'' 70 [] (MarkFileCompleted 30 ''disk1.vmdk'' tr_one)"

subsection \<open>Persistence\<close>

text \<open>
  \<^verbatim>\<open>Save\<close> hands the session to \<^verbatim>\<open>json.MarshalIndent\<close> and writes the bytes to the
  session file; \<^verbatim>\<open>LoadTracker\<close> reads the file and hands the bytes to
  \<^verbatim>\<open>json.Unmarshal\<close>. The model follows \<^verbatim>\<open>encoding/json\<close> on the document tree:
  a file holds a \<open>json\<close> value, and printing the tree as text and parsing the text are
  taken to be inverse. The encoder writes one member per struct field under the name of
  its tag, leaves out \<^verbatim>\<open>sha1Hash\<close> when it is empty (\<^verbatim>\<open>omitempty\<close>), writes a map as
  an object with its keys sorted, and fails on a time whose year is outside 0 to 9999.
  \<open>JTime t\<close> stands for the JSON string that holds the RFC 3339 text of \<open>t\<close>. The
  decoder leaves a field at its zero value when its member is missing or \<^verbatim>\<open>null\<close>,
  lets the last of several members of one name win, and fails on a member of the wrong
  type or a number outside \<^verbatim>\<open>int64\<close>. Matching of member names without regard to case
  is not modelled. A \<^verbatim>\<open>null\<close> member of \<^verbatim>\<open>files\<close> would decode to a nil
  pointer, which no operation of the tracker stores; the model rejects it.

  A Go string is a sequence of bytes. The encoder coerces every string it writes, map
  keys included, to valid UTF-8: each byte that does not start a valid encoding (as
  \<^verbatim>\<open>utf8.DecodeRuneInString\<close> reads it) is replaced by the replacement character
  U+FFFD, whose encoding is the bytes EF BF BD. \<open>runeLen\<close> is the width of the valid
  encoding at the head of a string, 0 when there is none.
\<close>

definition tail_ok :: "nat \<Rightarrow> nat \<Rightarrow> nat \<Rightarrow> string \<Rightarrow> bool" where
  "tail_ok lo hi k r =
     (case r of
        [] \<Rightarrow> False
      | c # r' \<Rightarrow> lo \<le> of_char c \<and> of_char c \<le> hi \<and> k \<le> length r'
          \<and> list_all (\<lambda>c. (128::nat) \<le> of_char c \<and> of_char c \<le> (191::nat)) (take k r'))"

fun runeLen :: "string \<Rightarrow> nat" where
  "runeLen [] = 0"
| "runeLen (a # r) =
     (let b = (of_char a :: nat) in
      if b < 128 then 1
      else if b < 194 then 0
      else if b \<le> 223 then (if tail_ok 128 191 0 r then 2 else 0)
      else if b = 224 then (if tail_ok 160 191 1 r then 3 else 0)
      else if b \<le> 236 then (if tail_ok 128 191 1 r then 3 else 0)
      else if b = 237 then (if tail_ok 128 159 1 r then 3 else 0)
      else if b \<le> 239 then (if tail_ok 128 191 1 r then 3 else 0)
      else if b = 240 then (if tail_ok 144 191 2 r then 4 else 0)
      else if b \<le> 243 then (if tail_ok 128 191 2 r then 4 else 0)
      else if b = 244 then (if tail_ok 128 143 2 r then 4 else 0)
      else 0)"

definition replacementChar :: string where
  "replacementChar = [char_of (239::nat), char_of (191::nat), char_of (189::nat)]"

text \<open>\<open>coerceFrom n s\<close> copies the \<open>n\<close> bytes that remain of the current encoding.\<close>

fun coerceFrom :: "nat \<Rightarrow> string \<Rightarrow> string" where
  "coerceFrom n [] = []"
| "coerceFrom n (a # r) =
     (if n > 0 then a # coerceFrom (n - 1) r
      else (case runeLen (a # r) of
              0 \<Rightarrow> replacementChar @ coerceFrom 0 r
            | Suc m \<Rightarrow> a # coerceFrom m r))"

definition coerceUTF8 :: "string \<Rightarrow> string" where
  "coerceUTF8 s = coerceFrom 0 s"

definition validUTF8 :: "string \<Rightarrow> bool" where
  "validUTF8 s = (coerceUTF8 s = s)"

datatype json =
    JNull
  | JBool bool
  | JNumber int
  | JString string
  | JTime Time
  | JObject "(string \<times> json) list"

definition zeroTime :: Time where
  "zeroTime = - 62135596800 * Second"

definition timeMarshals :: "Time \<Rightarrow> bool" where
  "timeMarshals t = (- 62167219200 * Second \<le> t \<and> t < 253402300800 * Second)"

definition marshalFileProgress :: "FileProgress \<Rightarrow> json option" where
  "marshalFileProgress f =
     (if timeMarshals (fStartTime f) \<and> timeMarshals (fLastUpdate f)
      then Some (JObject
        ([(''fileName'', JString (coerceUTF8 (FileName f))),
          (''totalSize'', JNumber (fTotalSize f)),
          (''uploadedSize'', JNumber (fUploadedSize f)),
          (''chunksTotal'', JNumber (ChunksTotal f)),
          (''chunksUploaded'', JNumber (ChunksUploaded f)),
          (''startTime'', JTime (fStartTime f)),
          (''lastUpdate'', JTime (fLastUpdate f)),
          (''isCompleted'', JBool (fIsCompleted f))]
         @ (if SHA1Hash f = [] then [] else [(''sha1Hash'', JString (coerceUTF8 (SHA1Hash f)))])))
      else None)"

fun marshalMembers :: "(string \<times> FileProgress) list \<Rightarrow> (string \<times> json) list option" where
  "marshalMembers [] = Some []"
| "marshalMembers ((k, f) # kfs) =
     (case marshalFileProgress f of
        None \<Rightarrow> None
      | Some j \<Rightarrow> (case marshalMembers kfs of None \<Rightarrow> None | Some js \<Rightarrow> Some ((coerceUTF8 k, j) # js)))"

definition marshalFiles :: "(string \<times> FileProgress) list \<Rightarrow> json option" where
  "marshalFiles kfs = map_option JObject (marshalMembers (sort_key fst kfs))"

definition marshalSession :: "UploadSession \<Rightarrow> json option" where
  "marshalSession s =
     (if timeMarshals (StartTime s) \<and> timeMarshals (LastUpdate s)
      then (case marshalFiles (Files s) of
              None \<Rightarrow> None
            | Some files \<Rightarrow> Some (JObject
                [(''sessionId'', JString (coerceUTF8 (SessionID s))),
                 (''ovaFile'', JString (coerceUTF8 (OVAFile s))),
                 (''esxiHost'', JString (coerceUTF8 (ESXiHost s))),
                 (''datastore'', JString (coerceUTF8 (Datastore s))),
                 (''vmName'', JString (coerceUTF8 (VMName s))),
                 (''totalSize'', JNumber (TotalSize s)),
                 (''uploadedSize'', JNumber (UploadedSize s)),
                 (''startTime'', JTime (StartTime s)),
                 (''lastUpdate'', JTime (LastUpdate s)),
                 (''isCompleted'', JBool (IsCompleted s)),
                 (''files'', files),
                 (''retryAttempts'', JNumber (RetryAttempts s))]))
      else None)"

definition jfield :: "(string \<times> json) list \<Rightarrow> string \<Rightarrow> json" where
  "jfield kvs k = (case map_of (rev kvs) k of None \<Rightarrow> JNull | Some v \<Rightarrow> v)"

fun asString :: "json \<Rightarrow> string option" where
  "asString JNull = Some []"
| "asString (JString s) = Some s"
| "asString _ = None"

fun asInt64 :: "json \<Rightarrow> int option" where
  "asInt64 JNull = Some 0"
| "asInt64 (JNumber n) = (if in_i64 n then Some n else None)"
| "asInt64 _ = None"

fun asBool :: "json \<Rightarrow> bool option" where
  "asBool JNull = Some False"
| "asBool (JBool b) = Some b"
| "asBool _ = None"

fun asTime :: "json \<Rightarrow> Time option" where
  "asTime JNull = Some zeroTime"
| "asTime (JTime t) = Some t"
| "asTime _ = None"

fun unmarshalFileProgress :: "json \<Rightarrow> FileProgress option" where
  "unmarshalFileProgress (JObject kvs) =
     do {
       fileName \<leftarrow> asString (jfield kvs ''fileName'');
       totalSize \<leftarrow> asInt64 (jfield kvs ''totalSize'');
       uploadedSize \<leftarrow> asInt64 (jfield kvs ''uploadedSize'');
       chunksTotal \<leftarrow> asInt64 (jfield kvs ''chunksTotal'');
       chunksUploaded \<leftarrow> asInt64 (jfield kvs ''chunksUploaded'');
       startTime \<leftarrow> asTime (jfield kvs ''startTime'');
       lastUpdate \<leftarrow> asTime (jfield kvs ''lastUpdate'');
       isCompleted \<leftarrow> asBool (jfield kvs ''isCompleted'');
       sha1Hash \<leftarrow> asString (jfield kvs ''sha1Hash'');
       Some \<lparr>FileName = fileName, fTotalSize = totalSize, fUploadedSize = uploadedSize,
             ChunksTotal = chunksTotal, ChunksUploaded = chunksUploaded,
             fStartTime = startTime, fLastUpdate = lastUpdate, fIsCompleted = isCompleted,
             SHA1Hash = sha1Hash\<rparr>
     }"
| "unmarshalFileProgress _ = None"

fun unmarshalMembers ::
  "(string \<times> json) list \<Rightarrow> (string \<times> FileProgress) list \<Rightarrow> (string \<times> FileProgress) list option"
where
  "unmarshalMembers [] m = Some m"
| "unmarshalMembers ((k, j) # kjs) m =
     (case unmarshalFileProgress j of
        None \<Rightarrow> None
      | Some f \<Rightarrow> unmarshalMembers kjs (AList.update k f m))"

fun unmarshalFiles :: "json \<Rightarrow> (string \<times> FileProgress) list option" where
  "unmarshalFiles JNull = Some []"
| "unmarshalFiles (JObject kjs) = unmarshalMembers kjs []"
| "unmarshalFiles _ = None"

fun unmarshalSession :: "json \<Rightarrow> UploadSession option" where
  "unmarshalSession (JObject kvs) =
     do {
       sessionId \<leftarrow> asString (jfield kvs ''sessionId'');
       ovaFile \<leftarrow> asString (jfield kvs ''ovaFile'');
       esxiHost \<leftarrow> asString (jfield kvs ''esxiHost'');
       datastore \<leftarrow> asString (jfield kvs ''datastore'');
       vmName \<leftarrow> asString (jfield kvs ''vmName'');
       totalSize \<leftarrow> asInt64 (jfield kvs ''totalSize'');
       uploadedSize \<leftarrow> asInt64 (jfield kvs ''uploadedSize'');
       startTime \<leftarrow> asTime (jfield kvs ''startTime'');
       lastUpdate \<leftarrow> asTime (jfield kvs ''lastUpdate'');
       isCompleted \<leftarrow> asBool (jfield kvs ''isCompleted'');
       files \<leftarrow> unmarshalFiles (jfield kvs ''files'');
       retryAttempts \<leftarrow> asInt64 (jfield kvs ''retryAttempts'');
       Some \<lparr>SessionID = sessionId, OVAFile = ovaFile, ESXiHost = esxiHost,
             Datastore = datastore, VMName = vmName, TotalSize = totalSize,
             UploadedSize = uploadedSize, StartTime = startTime, LastUpdate = lastUpdate,
             IsCompleted = isCompleted, Files = files, RetryAttempts = retryAttempts\<rparr>
     }"
| "unmarshalSession JNull = Some \<lparr>SessionID = [], OVAFile = [], ESXiHost = [],
     Datastore = [], VMName = [], TotalSize = 0, UploadedSize = 0, StartTime = zeroTime,
     LastUpdate = zeroTime, IsCompleted = False, Files = [], RetryAttempts = 0\<rparr>"
| "unmarshalSession _ = None"

text \<open>
  The file system maps a path to the document the file holds; \<open>writable\<close> tells
  whether \<^verbatim>\<open>os.WriteFile\<close> succeeds on a path.
\<close>

record filesystem =
  files :: "string \<Rightarrow> json option"
  writable :: "string \<Rightarrow> bool"

datatype tracker_error =
    MarshalError
  | WriteError
  | ReadError
  | ParseError

definition Save :: "Tracker \<Rightarrow> filesystem \<Rightarrow> tracker_error + filesystem" where
  "Save t fs =
     (case marshalSession (session t) of
        None \<Rightarrow> Inl MarshalError
      | Some data \<Rightarrow>
          if \<not> writable fs (sessionFile t) then Inl WriteError
          else Inr (fs\<lparr>files := (files fs)(sessionFile t \<mapsto> data)\<rparr>))"

definition LoadTracker :: "string \<Rightarrow> filesystem \<Rightarrow> tracker_error + Tracker" where
  "LoadTracker path fs =
     (case files fs path of
        None \<Rightarrow> Inl ReadError
      | Some data \<Rightarrow>
          (case unmarshalSession data of
             None \<Rightarrow> Inl ParseError
           | Some s \<Rightarrow> Inr \<lparr>session = s, sessionFile = path, autoSave = True,
                          saveInterval = 5 * Second\<rparr>))"

text \<open>
  A session is a value of the Go types when its integer fields lie in \<^verbatim>\<open>int64\<close>
  and its map has one entry per key.
\<close>

definition wf_FileProgress :: "FileProgress \<Rightarrow> bool" where
  "wf_FileProgress f =
     (in_i64 (fTotalSize f) \<and> in_i64 (fUploadedSize f)
      \<and> in_i64 (ChunksTotal f) \<and> in_i64 (ChunksUploaded f))"

definition wf_session :: "UploadSession \<Rightarrow> bool" where
  "wf_session s =
     (in_i64 (TotalSize s) \<and> in_i64 (UploadedSize s) \<and> in_i64 (RetryAttempts s)
      \<and> distinct (map fst (Files s)) \<and> list_all (\<lambda>(k, f). wf_FileProgress f) (Files s))"

text \<open>A session whose strings are all valid UTF-8.\<close>

definition utf8_FileProgress :: "FileProgress \<Rightarrow> bool" where
  "utf8_FileProgress f = (validUTF8 (FileName f) \<and> validUTF8 (SHA1Hash f))"

definition utf8_session :: "UploadSession \<Rightarrow> bool" where
  "utf8_session s =
     (validUTF8 (SessionID s) \<and> validUTF8 (OVAFile s) \<and> validUTF8 (ESXiHost s)
      \<and> validUTF8 (Datastore s) \<and> validUTF8 (VMName s)
      \<and> list_all (\<lambda>(k, f). validUTF8 k \<and> utf8_FileProgress f) (Files s))"

text \<open>Saving a tracker to a file system and loading the file again.\<close>

definition save_then_load :: "Tracker \<Rightarrow> filesystem \<Rightarrow> tracker_error + Tracker" where
  "save_then_load t fs =
     (case Save t fs of Inl e \<Rightarrow> Inl e | Inr fs' \<Rightarrow> LoadTracker (sessionFile t) fs')"

definition everywhere :: "string \<Rightarrow> bool" where
  "everywhere path = True"

definition nothing :: "string \<Rightarrow> json option" where
  "nothing path = None"

definition empty_fs :: filesystem where
  "empty_fs = \<lparr>files = nothing, writable = everywhere\<rparr>"

definition fp_one :: FileProgress where
  "fp_one = \<lparr>FileName = ''disk1.vmdk'', fTotalSize = 100, fUploadedSize = 0,
     ChunksTotal = 1, ChunksUploaded = 0, fStartTime = 10, fLastUpdate = 10,
     fIsCompleted = False, SHA1Hash = []\<rparr>"

definition fp_half :: FileProgress where
  "fp_half = \<lparr>FileName = ''disk1.vmdk'', fTotalSize = 100, fUploadedSize = 50,
     ChunksTotal = 1, ChunksUploaded = 1, fStartTime = 10, fLastUpdate = 20,
     fIsCompleted = False, SHA1Hash = []\<rparr>"

text \<open>A file name in Latin-1, as older archives carry them: \<^verbatim>\<open>gr\<close>, the byte F6, \<^verbatim>\<open>.vmdk\<close>.\<close>

definition name_latin1 :: string where
  "name_latin1 = ''gr'' @ [char_of (246::nat)] @ ''.vmdk''"

definition tr_latin1 :: Tracker where
  "tr_latin1 = AddFile 10 name_latin1 100 [] (NewTracker 5 ''1'' ''vm.ova'' ''host'' ''ds'' ''vm'')"

definition tr_latin1_loaded :: Tracker where
  "tr_latin1_loaded =
     AddFile 10 (coerceUTF8 name_latin1) 100 [] (NewTracker 5 ''1'' ''vm.ova'' ''host'' ''ds'' ''vm'')"

section \<open>pkg/ova: the archive parser\<close>

text \<open>
  An archive file is given by what the code reads of it: its bytes, the headers that
  \<^verbatim>\<open>tarReader.Next()\<close> yields in archive order, and whether the reader then ends with
  \<^verbatim>\<open>io.EOF\<close> or with another error (\<open>truncated\<close>). A disk maps a path to the archive
  stored there; \<^verbatim>\<open>os.Open\<close> fails on a path without one. Of a header the parser
  reads the name, the size and the type flag.
\<close>

record tar_header =
  hName :: string
  hSize :: int
  hTypeflag :: char

definition TypeReg :: char where
  "TypeReg = CHR ''0''"

record archive =
  bytes :: string
  headers :: "tar_header list"
  truncated :: bool
  statFails :: bool

type_synonym disk = "string \<Rightarrow> archive option"

record OVAFile =
  Name :: string
  Size :: int
  Offset :: int
  oSHA1Hash :: string

record OVAPackage =
  FilePath :: string
  OVFFile :: "OVAFile option"
  VMDKFiles :: "OVAFile list"
  ManifestFile :: "OVAFile option"
  CertFile :: "OVAFile option"
  pTotalSize :: int

record ManifestEntry =
  mFileName :: string
  mSHA1Hash :: string

datatype ova_error =
    OpenFailed
  | StatFailed
  | ReadTarFailed
  | NoOVFFile
  | NoVMDKFiles
  | ParseManifestFailed
  | SeekFailed
  | ReadFailed
  | MakeSlicePanic
  | ChecksumMismatch string string string

text \<open>
  \<^verbatim>\<open>filepath.Ext\<close> scans the path from its end for a dot and stops at a slash.
\<close>

fun extScan :: "string \<Rightarrow> string \<Rightarrow> string" where
  "extScan [] acc = []"
| "extScan (c # rs) acc =
     (if c = CHR ''/'' then []
      else if c = CHR ''.'' then c # acc
      else extScan rs (c # acc))"

definition Ext :: "string \<Rightarrow> string" where
  "Ext path = extScan (rev path) []"

text \<open>
  \<^verbatim>\<open>strings.ToLower\<close> looks for a byte that is not ASCII. When there is none it
  maps the bytes \<^verbatim>\<open>A\<close> to \<^verbatim>\<open>Z\<close> to lower case and keeps the others; otherwise it
  returns \<^verbatim>\<open>strings.Map(unicode.ToLower, s)\<close>, which decodes the string as UTF-8 and
  maps each code point by the tables of the package \<^verbatim>\<open>unicode\<close> (the Kelvin sign
  U+212A, for one, becomes \<^verbatim>\<open>k\<close>). That function is the argument \<open>mapLower\<close> of
  the model, and of every function that lower-cases a string.
\<close>

definition lowerByte :: "char \<Rightarrow> char" where
  "lowerByte c =
     (if (65::nat) \<le> of_char c \<and> of_char c \<le> (90::nat) then char_of (of_char c + (32::nat)) else c)"

definition isASCII :: "string \<Rightarrow> bool" where
  "isASCII s = list_all (\<lambda>c. of_char c < (128::nat)) s"

definition ToLower :: "(string \<Rightarrow> string) \<Rightarrow> string \<Rightarrow> string" where
  "ToLower mapLower s = (if isASCII s then map lowerByte s else mapLower s)"

text \<open>
  The loop of \<^verbatim>\<open>ParseOVA\<close> over the headers, with the running offset. A header that
  is not a regular file only advances the offset. The offset is the sum of the sizes of the
  entries before; the header blocks and the padding of the tar format are not counted.
\<close>

fun scanHeaders :: "(string \<Rightarrow> string) \<Rightarrow> tar_header list \<Rightarrow> int \<Rightarrow> OVAPackage \<Rightarrow> OVAPackage" where
  "scanHeaders mapLower [] offset pkg = pkg"
| "scanHeaders mapLower (header # rest) offset pkg =
     (if hTypeflag header \<noteq> TypeReg
      then scanHeaders mapLower rest (i64 (offset + hSize header)) pkg
      else
        (let ovaFile = \<lparr>Name = hName header, Size = hSize header, Offset = offset,
                         oSHA1Hash = []\<rparr>;
             ext = ToLower mapLower (Ext (hName header));
             pkg = (if ext = ''.ovf'' then pkg\<lparr>OVFFile := Some ovaFile\<rparr>
                    else if ext = ''.vmdk'' then pkg\<lparr>VMDKFiles := VMDKFiles pkg @ [ovaFile]\<rparr>
                    else if ext = ''.mf'' then pkg\<lparr>ManifestFile := Some ovaFile\<rparr>
                    else if ext = ''.cert'' then pkg\<lparr>CertFile := Some ovaFile\<rparr>
                    else pkg)
         in scanHeaders mapLower rest (i64 (offset + hSize header)) pkg))"

text \<open>
  Reading \<open>n\<close> bytes at an offset: \<^verbatim>\<open>Seek\<close> rejects a negative offset,
  \<^verbatim>\<open>make([]byte, n)\<close> panics on a negative length, and \<^verbatim>\<open>io.ReadFull\<close> fails when
  fewer than \<open>n\<close> bytes follow the offset.
\<close>

definition readAt :: "string \<Rightarrow> int \<Rightarrow> int \<Rightarrow> ova_error + string" where
  "readAt content off n =
     (if off < 0 then Inl SeekFailed
      else if n < 0 then Inl MakeSlicePanic
      else if int (length (drop (nat off) content)) < n then Inl ReadFailed
      else Inr (take (nat n) (drop (nat off) content)))"

text \<open>
  The manifest pattern \<^verbatim>\<open>SHA1\s*\(([^)]+)\)\s*=\s*([a-fA-F0-9]+)\<close>. No step of it can
  be matched in two ways, so the leftmost match is found by trying each start position in
  turn: the literal \<^verbatim>\<open>SHA1\<close>, white space, an opening parenthesis, the name up to the
  next closing parenthesis (not empty), white space, the equals sign, white space, and the
  longest run of hexadecimal digits (not empty).
\<close>

definition isSpace :: "char \<Rightarrow> bool" where
  "isSpace c = (c \<in> set [CHR 0x09, CHR 0x0A, CHR 0x0C, CHR 0x0D, CHR '' ''])"

definition isHex :: "char \<Rightarrow> bool" where
  "isHex c = (c \<in> set ''0123456789abcdefABCDEF'')"

definition expect :: "char \<Rightarrow> string \<Rightarrow> string option" where
  "expect c s = (case s of [] \<Rightarrow> None | d # r \<Rightarrow> if d = c then Some r else None)"

definition matchHere :: "string \<Rightarrow> (string \<times> string) option" where
  "matchHere s =
     (if take 4 s \<noteq> ''SHA1'' then None
      else
        do {
          s \<leftarrow> expect CHR ''('' (dropWhile isSpace (drop 4 s));
          (let name = takeWhile (\<lambda>c. c \<noteq> CHR '')'') s in
           if name = [] then None
           else
             do {
               s \<leftarrow> expect CHR '')'' (dropWhile (\<lambda>c. c \<noteq> CHR '')'') s);
               s \<leftarrow> expect CHR ''='' (dropWhile isSpace s);
               (let hash = takeWhile isHex (dropWhile isSpace s) in
                if hash = [] then None else Some (name, hash))
             })
        })"

fun FindStringSubmatch :: "string \<Rightarrow> (string \<times> string) option" where
  "FindStringSubmatch [] = None"
| "FindStringSubmatch (c # s) =
     (case matchHere (c # s) of
        Some m \<Rightarrow> Some m
      | None \<Rightarrow> FindStringSubmatch s)"

fun splitLines :: "string \<Rightarrow> string \<Rightarrow> string list" where
  "splitLines [] line = [rev line]"
| "splitLines (c # s) line =
     (if c = CHR 0x0A then rev line # splitLines s [] else splitLines s (c # line))"

definition TrimSpace :: "string \<Rightarrow> string" where
  "TrimSpace s =
     (let sp = (\<lambda>c. isSpace c \<or> c = CHR 0x0B)
      in rev (dropWhile sp (rev (dropWhile sp s))))"

definition manifestEntries :: "(string \<Rightarrow> string) \<Rightarrow> string list \<Rightarrow> ManifestEntry list" where
  "manifestEntries mapLower lines =
     concat (map (\<lambda>line.
       (let line = TrimSpace line in
        if line = [] then []
        else (case FindStringSubmatch line of
                None \<Rightarrow> []
              | Some (name, hash) \<Rightarrow> [\<lparr>mFileName = name, mSHA1Hash = ToLower mapLower hash\<rparr>]))) lines)"

definition parseManifestFile ::
  "(string \<Rightarrow> string) \<Rightarrow> disk \<Rightarrow> string \<Rightarrow> OVAFile \<Rightarrow> ova_error + ManifestEntry list" where
  "parseManifestFile mapLower d ovaPath manifestFile =
     (case d ovaPath of
        None \<Rightarrow> Inl OpenFailed
      | Some a \<Rightarrow>
          (case readAt (bytes a) (Offset manifestFile) (Size manifestFile) of
             Inl e \<Rightarrow> Inl e
           | Inr content \<Rightarrow> Inr (manifestEntries mapLower (splitLines content []))))"

text \<open>
  \<^verbatim>\<open>updateHashesFromManifest\<close> builds a map from the entries, a later entry of a name
  replacing an earlier one, and stores the hash found for a name in its descriptor.
\<close>

definition withHash :: "(string \<Rightarrow> string option) \<Rightarrow> OVAFile \<Rightarrow> OVAFile" where
  "withHash manifestMap f =
     (case manifestMap (Name f) of None \<Rightarrow> f | Some hash \<Rightarrow> f\<lparr>oSHA1Hash := hash\<rparr>)"

definition updateHashesFromManifest :: "OVAPackage \<Rightarrow> ManifestEntry list \<Rightarrow> OVAPackage" where
  "updateHashesFromManifest pkg manifest =
     (let manifestMap = map_of (rev (map (\<lambda>entry. (mFileName entry, mSHA1Hash entry)) manifest))
      in pkg\<lparr>OVFFile := map_option (withHash manifestMap) (OVFFile pkg),
             VMDKFiles := map (withHash manifestMap) (VMDKFiles pkg)\<rparr>)"

definition ParseOVA :: "(string \<Rightarrow> string) \<Rightarrow> disk \<Rightarrow> string \<Rightarrow> ova_error + OVAPackage" where
  "ParseOVA mapLower d ovaPath =
     (case d ovaPath of
        None \<Rightarrow> Inl OpenFailed
      | Some a \<Rightarrow>
          if statFails a then Inl StatFailed
          else
            (let pkg = \<lparr>FilePath = ovaPath, OVFFile = None, VMDKFiles = [], ManifestFile = None,
                        CertFile = None, pTotalSize = int (length (bytes a))\<rparr>;
                 pkg = scanHeaders mapLower (headers a) 0 pkg
             in if truncated a then Inl ReadTarFailed
                else if OVFFile pkg = None then Inl NoOVFFile
                else if length (VMDKFiles pkg) = 0 then Inl NoVMDKFiles
                else (case ManifestFile pkg of
                        None \<Rightarrow> Inr pkg
                      | Some manifestFile \<Rightarrow>
                          (case parseManifestFile mapLower d ovaPath manifestFile of
                             Inl e \<Rightarrow> Inl ParseManifestFailed
                           | Inr manifest \<Rightarrow> Inr (updateHashesFromManifest pkg manifest)))))"

text \<open>
  \<^verbatim>\<open>ValidateFileChecksum\<close>. The argument \<open>sha1hex\<close> is the SHA-1 digest of a byte
  string printed with \<^verbatim>\<open>%x\<close>, the work of \<^verbatim>\<open>crypto/sha1\<close> and \<^verbatim>\<open>fmt\<close>.
  \<^verbatim>\<open>io.CopyN\<close> copies nothing and reports no error for a count that is not positive,
  and fails when fewer bytes than the count follow the offset. The result is the error
  returned, \<open>None\<close> for \<^verbatim>\<open>nil\<close>.
\<close>

definition CopyN :: "string \<Rightarrow> int \<Rightarrow> int \<Rightarrow> ova_error + string" where
  "CopyN content off n =
     (if n \<le> 0 then Inr []
      else if int (length (drop (nat off) content)) < n then Inl ReadFailed
      else Inr (take (nat n) (drop (nat off) content)))"

definition ValidateFileChecksum ::
  "(string \<Rightarrow> string) \<Rightarrow> (string \<Rightarrow> string) \<Rightarrow> disk \<Rightarrow> string \<Rightarrow> OVAFile
     \<Rightarrow> ova_error option" where
  "ValidateFileChecksum sha1hex mapLower d ovaPath ovaFile =
     (if oSHA1Hash ovaFile = [] then None
      else
        (case d ovaPath of
           None \<Rightarrow> Some OpenFailed
         | Some a \<Rightarrow>
             if Offset ovaFile < 0 then Some SeekFailed
             else
               (case CopyN (bytes a) (Offset ovaFile) (Size ovaFile) of
                  Inl e \<Rightarrow> Some e
                | Inr content \<Rightarrow>
                    (let calculatedHash = sha1hex content
                     in if ToLower mapLower calculatedHash \<noteq> ToLower mapLower (oSHA1Hash ovaFile)
                        then Some (ChecksumMismatch (Name ovaFile) (oSHA1Hash ovaFile)
                                     calculatedHash)
                        else None))))"

text \<open>The entries the parser takes for the configuration descriptor and for payloads.\<close>

definition isOVF :: "(string \<Rightarrow> string) \<Rightarrow> tar_header \<Rightarrow> bool" where
  "isOVF mapLower h = (hTypeflag h = TypeReg \<and> ToLower mapLower (Ext (hName h)) = ''.ovf'')"

definition isVMDK :: "(string \<Rightarrow> string) \<Rightarrow> tar_header \<Rightarrow> bool" where
  "isVMDK mapLower h = (hTypeflag h = TypeReg \<and> ToLower mapLower (Ext (hName h)) = ''.vmdk'')"

text \<open>
  The payload descriptors that the loop appends for a list of headers read from a given
  offset on, named for the proofs.
\<close>

fun vmdkOf :: "(string \<Rightarrow> string) \<Rightarrow> tar_header list \<Rightarrow> int \<Rightarrow> OVAFile list" where
  "vmdkOf mapLower [] offset = []"
| "vmdkOf mapLower (header # rest) offset =
     (if isVMDK mapLower header
      then [\<lparr>Name = hName header, Size = hSize header, Offset = offset, oSHA1Hash = []\<rparr>]
      else [])
     @ vmdkOf mapLower rest (i64 (offset + hSize header))"

text \<open>
  Sample archives. The file is as long as a tar file of the entries is: a block of 512
  bytes for each header, the data of each entry padded to whole blocks, and two blocks at
  the end.
\<close>

definition reg :: "string \<Rightarrow> int \<Rightarrow> tar_header" where
  "reg name n = \<lparr>hName = name, hSize = n, hTypeflag = TypeReg\<rparr>"

definition zeros :: "nat \<Rightarrow> string" where
  "zeros n = replicate n (CHR 0x00)"

definition ar_two :: archive where
  "ar_two = \<lparr>bytes = zeros 5120,
     headers = [reg ''vm.ovf'' 10, reg ''disk1.vmdk'' 20, reg ''notes.txt'' 3, reg ''Disk2.VMDK'' 30],
     truncated = False, statFails = False\<rparr>"

definition ar_empty_disk :: archive where
  "ar_empty_disk = \<lparr>bytes = zeros 3584,
     headers = [reg ''vm.ovf'' 10, reg ''disk1.vmdk'' 0, reg ''disk2.vmdk'' 5],
     truncated = False, statFails = False\<rparr>"



definition disk_of :: "archive \<Rightarrow> disk" where
  "disk_of a path = (if path = ''vm.ova'' then Some a else None)"

text \<open>
  A function that lower-cases the ASCII letters and the Kelvin sign (in UTF-8 the bytes
  \<^verbatim>\<open>E2 84 AA\<close>) and keeps every other byte. On strings made of ASCII characters and
  Kelvin signs it is \<^verbatim>\<open>strings.Map(unicode.ToLower, s)\<close>.
\<close>

fun lowerKelvin :: "string \<Rightarrow> string" where
  "lowerKelvin (a # b # c # s) =
     (if a = CHR 0xE2 \<and> b = CHR 0x84 \<and> c = CHR 0xAA then CHR ''k'' # lowerKelvin s
      else lowerByte a # lowerKelvin (b # c # s))"
| "lowerKelvin (a # s) = lowerByte a # lowerKelvin s"
| "lowerKelvin [] = []"

definition name_kelvin :: string where
  "name_kelvin = ''b.vmd'' @ [CHR 0xE2, CHR 0x84, CHR 0xAA]"

definition ar_kelvin :: archive where
  "ar_kelvin = \<lparr>bytes = zeros 4608,
     headers = [reg ''vm.ovf'' 10, reg ''a.vmdk'' 20, reg name_kelvin 30],
     truncated = False, statFails = False\<rparr>"

text \<open>Archives whose tar stream breaks off after the headers listed.\<close>

definition ar_cut_no_ovf :: archive where
  "ar_cut_no_ovf = \<lparr>bytes = zeros 700, headers = [reg ''disk1.vmdk'' 20],
     truncated = True, statFails = False\<rparr>"

definition ar_cut_no_vmdk :: archive where
  "ar_cut_no_vmdk = \<lparr>bytes = zeros 700, headers = [reg ''vm.ovf'' 10],
     truncated = True, statFails = False\<rparr>"

subsection \<open>A digest for the examples\<close>

text \<open>
  SHA-1 as FIPS 180-4 defines it, for the examples of \<open>ValidateFileChecksum\<close>: the words
  of 32 bits are integers with the reduction modulo \<open>2 ^ 32\<close> written out, and the digest
  is printed in lower-case hexadecimal, as \<^verbatim>\<open>%x\<close> prints it.
\<close>

unbundle bit_operations_syntax

definition w32 :: "int \<Rightarrow> int" where
  "w32 x = x mod 4294967296"

definition rotl :: "nat \<Rightarrow> int \<Rightarrow> int" where
  "rotl n x = w32 (x * 2 ^ n) + x div 2 ^ (32 - n)"

definition sha1_pad :: "int list \<Rightarrow> int list" where
  "sha1_pad m =
     (let l = int (length m);
          z = (119 - l mod 64) mod 64
      in m @ [128] @ replicate (nat z) 0
           @ map (\<lambda>i. (8 * l) div 2 ^ (8 * (7 - i)) mod 256) [0..<8])"

fun be_words :: "int list \<Rightarrow> int list" where
  "be_words (a # b # c # d # r) = (((a * 256 + b) * 256 + c) * 256 + d) # be_words r"
| "be_words _ = []"

fun sha1_schedule :: "nat \<Rightarrow> int list \<Rightarrow> int list" where
  "sha1_schedule 0 w = w"
| "sha1_schedule (Suc n) w =
     sha1_schedule n
       (w @ [rotl 1 (w ! (length w - 3) XOR w ! (length w - 8) XOR w ! (length w - 14)
                       XOR w ! (length w - 16))])"

definition sha1_f :: "nat \<Rightarrow> int \<Rightarrow> int \<Rightarrow> int \<Rightarrow> int" where
  "sha1_f t b c d =
     (if t < 20 then (b AND c) OR ((4294967295 - b) AND d)
      else if t < 40 then b XOR c XOR d
      else if t < 60 then (b AND c) OR (b AND d) OR (c AND d)
      else b XOR c XOR d)"

definition sha1_k :: "nat \<Rightarrow> int" where
  "sha1_k t = (if t < 20 then 0x5A827999 else if t < 40 then 0x6ED9EBA1
               else if t < 60 then 0x8F1BBCDC else 0xCA62C1D6)"

fun sha1_rounds ::
  "int list \<Rightarrow> nat \<Rightarrow> int \<times> int \<times> int \<times> int \<times> int \<Rightarrow> int \<times> int \<times> int \<times> int \<times> int" where
  "sha1_rounds [] t s = s"
| "sha1_rounds (w # ws) t (a, b, c, d, e) =
     sha1_rounds ws (Suc t)
       (w32 (rotl 5 a + sha1_f t b c d + e + sha1_k t + w), a, rotl 30 b, c, d)"

definition sha1_block ::
  "int \<times> int \<times> int \<times> int \<times> int \<Rightarrow> int list \<Rightarrow> int \<times> int \<times> int \<times> int \<times> int" where
  "sha1_block h ws =
     (case h of (h0, h1, h2, h3, h4) \<Rightarrow>
        (case sha1_rounds (sha1_schedule 64 ws) 0 h of (a, b, c, d, e) \<Rightarrow>
           (w32 (h0 + a), w32 (h1 + b), w32 (h2 + c), w32 (h3 + d), w32 (h4 + e))))"

fun sha1_blocks ::
  "nat \<Rightarrow> int list \<Rightarrow> int \<times> int \<times> int \<times> int \<times> int \<Rightarrow> int \<times> int \<times> int \<times> int \<times> int" where
  "sha1_blocks 0 ws h = h"
| "sha1_blocks (Suc n) ws h = sha1_blocks n (drop 16 ws) (sha1_block h (take 16 ws))"

definition hex32 :: "int \<Rightarrow> string" where
  "hex32 w = map (\<lambda>i. ''0123456789abcdef'' ! nat (w div 16 ^ (7 - i) mod 16)) [0..<8]"

definition sha1_hexdigest :: "string \<Rightarrow> string" where
  "sha1_hexdigest s =
     (let ws = be_words (sha1_pad (map of_char s))
      in case sha1_blocks (length ws div 16) ws
              (0x67452301, 0xEFCDAB89, 0x98BADCFE, 0x10325476, 0xC3D2E1F0) of
           (a, b, c, d, e) \<Rightarrow> hex32 a @ hex32 b @ hex32 c @ hex32 d @ hex32 e)"

text \<open>
  An archive file with the bytes \<^verbatim>\<open>abc\<close> at the offsets 10 to 12, and descriptors
  that point into it: without a recorded hash; with the digest of \<^verbatim>\<open>abc\<close> in upper
  case; with a digest that differs in its last digit; and with the digest of
  \<^verbatim>\<open>abc\<close> but an offset one byte further on.
\<close>

definition ar_abc :: archive where
  "ar_abc = \<lparr>bytes = zeros 10 @ ''abc'' @ zeros 3059,
     headers = [reg ''vm.ovf'' 10, reg ''disk1.vmdk'' 3],
     truncated = False, statFails = False\<rparr>"

definition file_nohash :: OVAFile where
  "file_nohash = \<lparr>Name = ''disk1.vmdk'', Size = 3, Offset = 10, oSHA1Hash = []\<rparr>"

definition file_goodhash :: OVAFile where
  "file_goodhash = \<lparr>Name = ''disk1.vmdk'', Size = 3, Offset = 10,
     oSHA1Hash = ''A9993E364706816ABA3E25717850C26C9CD0D89D''\<rparr>"

definition file_badhash :: OVAFile where
  "file_badhash = \<lparr>Name = ''disk1.vmdk'', Size = 3, Offset = 10,
     oSHA1Hash = ''A9993E364706816ABA3E25717850C26C9CD0D89E''\<rparr>"

definition file_shifted :: OVAFile where
  "file_shifted = \<lparr>Name = ''disk1.vmdk'', Size = 3, Offset = 11,
     oSHA1Hash = ''A9993E364706816ABA3E25717850C26C9CD0D89D''\<rparr>"

section \<open>pkg/esxi: the chunk plan of the uploader\<close>

text \<open>
  \<^verbatim>\<open>uploadFromOVAParallel\<close> computes the number of chunks, makes the work queue with
  that capacity, starts the workers and then queues one \<^verbatim>\<open>chunkWork\<close> per chunk. The
  model is the sequence of values sent on the work queue, a function of the configured
  chunk size, the offset of the payload in the archive and its size, whatever the workers
  do. The division panics on a chunk size of 0 and \<^verbatim>\<open>make\<close> panics on a negative
  capacity; the limit that memory puts on the capacity is not modelled. The counter
  \<^verbatim>\<open>chunkNum\<close> wraps around like every \<^verbatim>\<open>int64\<close>, so the loop is a partial function.
\<close>

record chunkWork =
  chunkNumber :: int
  ovaOffset :: int
  chunkSize :: int

datatype upload_panic =
    DivideByZero
  | MakeChanSizeOutOfRange

partial_function (option) queueChunks ::
  "int \<Rightarrow> int \<Rightarrow> int \<Rightarrow> int \<Rightarrow> int \<Rightarrow> int \<Rightarrow> chunkWork list \<Rightarrow> chunkWork list option"
where
  "queueChunks uChunkSize offset totalSize totalChunks chunkNum currentOffset workQueue =
     (if chunkNum \<le> totalChunks
      then
        (let chunkSize = uChunkSize;
             chunkSize = (if i64 (currentOffset + chunkSize) > totalSize
                          then i64 (totalSize - currentOffset) else chunkSize);
             workQueue = workQueue @ [\<lparr>chunkNumber = chunkNum,
                                       ovaOffset = i64 (offset + currentOffset),
                                       chunkSize = chunkSize\<rparr>];
             currentOffset = i64 (currentOffset + chunkSize)
         in queueChunks uChunkSize offset totalSize totalChunks (i64 (chunkNum + 1))
              currentOffset workQueue)
      else Some workQueue)"

declare queueChunks.simps [code]

definition uploadFromOVAParallel_workQueue ::
  "int \<Rightarrow> int \<Rightarrow> int \<Rightarrow> (upload_panic + chunkWork list) option" where
  "uploadFromOVAParallel_workQueue uChunkSize offset totalSize =
     (if uChunkSize = 0 then Some (Inl DivideByZero)
      else
        (let totalChunks = quo (i64 (i64 (totalSize + uChunkSize) - 1)) uChunkSize
         in if totalChunks < 0 then Some (Inl MakeChanSizeOutOfRange)
            else map_option Inr
                   (queueChunks uChunkSize offset totalSize totalChunks 1 0 [])))"

text \<open>
  The sequential sibling \<^verbatim>\<open>uploadFromOVAChunkedQuiet\<close> runs while bytes remain, not up
  to the computed number of chunks. The model is the sequence of chunks it uploads when
  every upload succeeds.
\<close>

partial_function (option) streamChunks ::
  "int \<Rightarrow> int \<Rightarrow> int \<Rightarrow> int \<Rightarrow> int \<Rightarrow> chunkWork list \<Rightarrow> chunkWork list option"
where
  "streamChunks uChunkSize offset totalSize chunkNo uploadedBytes sent =
     (if uploadedBytes < totalSize
      then
        (let chunkSize = uChunkSize;
             chunkSize = (if i64 (uploadedBytes + chunkSize) > totalSize
                          then i64 (totalSize - uploadedBytes) else chunkSize);
             sent = sent @ [\<lparr>chunkNumber = chunkNo,
                             ovaOffset = i64 (offset + uploadedBytes),
                             chunkSize = chunkSize\<rparr>];
             uploadedBytes = i64 (uploadedBytes + chunkSize)
         in streamChunks uChunkSize offset totalSize (i64 (chunkNo + 1)) uploadedBytes sent)
      else Some sent)"

declare streamChunks.simps [code]

definition uploadFromOVAChunked_chunks ::
  "int \<Rightarrow> int \<Rightarrow> int \<Rightarrow> (upload_panic + chunkWork list) option" where
  "uploadFromOVAChunked_chunks uChunkSize offset totalSize =
     (if uChunkSize = 0 then Some (Inl DivideByZero)
      else map_option Inr (streamChunks uChunkSize offset totalSize 1 0 []))"

text \<open>The chunk with index \<open>k\<close>, counted from 0, of a payload of size \<open>S\<close> cut at \<open>C\<close>.\<close>

definition chunkAt :: "int \<Rightarrow> int \<Rightarrow> int \<Rightarrow> nat \<Rightarrow> chunkWork" where
  "chunkAt C off S k =
     \<lparr>chunkNumber = int k + 1, ovaOffset = off + int k * C, chunkSize = min C (S - int k * C)\<rparr>"

definition MiB :: int where
  "MiB = 1024 * 1024"

chapter \<open>The properties\<close>

section \<open>Arithmetic helpers\<close>

lemma i64_id: "in_i64 x \<Longrightarrow> i64 x = x"
  by (simp add: i64_def in_i64_def MinInt64_def MaxInt64_def)

section \<open>The retry manager\<close>

subsection \<open>Constructor defaults\<close>

text \<open>
  C10 (as amended). \<^verbatim>\<open>NewRetryManager\<close> replaces exactly the zero-valued fields:
  maximum attempts 0 becomes the unbounded sentinel \<open>-1\<close>, base delay 0 becomes one
  second, maximum delay 0 becomes five minutes, backoff factor 0 becomes 2 and jitter
  fraction 0 becomes 0.1; every other value, negative ones included, is kept. Hence the
  constructed manager never has a zero jitter fraction or a zero base delay, and both are
  strictly positive whenever the configured values are not negative.
\<close>

theorem NewRetryManager_defaults:
  "maxRetries (NewRetryManager c) = (if MaxRetries c = 0 then - 1 else MaxRetries c)
   \<and> baseDelay (NewRetryManager c) = (if BaseDelay c = 0 then Second else BaseDelay c)
   \<and> maxDelay (NewRetryManager c) = (if MaxDelay c = 0 then 5 * Minute else MaxDelay c)
   \<and> backoffFactor (NewRetryManager c) = (if BackoffFactor c = 0 then 2 else BackoffFactor c)
   \<and> jitterRange (NewRetryManager c) = (if JitterRange c = 0 then 1 / 10 else JitterRange c)
   \<and> retryableErrors (NewRetryManager c) = RetryableErrors c
   \<and> jitterRange (NewRetryManager c) \<noteq> 0
   \<and> baseDelay (NewRetryManager c) \<noteq> 0
   \<and> (0 \<le> JitterRange c \<longrightarrow> 0 < jitterRange (NewRetryManager c))
   \<and> (0 \<le> BaseDelay c \<longrightarrow> 0 < baseDelay (NewRetryManager c))"
  by (simp add: NewRetryManager_def Let_def Second_def)

theorem NewRetryManager_defaults_witness:
  "0 \<le> JitterRange cfg_three \<and> 0 \<le> BaseDelay cfg_three
   \<and> maxRetries (NewRetryManager cfg_three) = 3
   \<and> maxRetries (NewRetryManager cfg_unbounded) = - 1
   \<and> baseDelay (NewRetryManager cfg_three) = 1000000000
   \<and> maxDelay (NewRetryManager cfg_three) = 300000000000
   \<and> backoffFactor (NewRetryManager cfg_three) = 2
   \<and> jitterRange (NewRetryManager cfg_three) = 1 / 10
   \<and> 0 < jitterRange (NewRetryManager cfg_three)
   \<and> 0 < baseDelay (NewRetryManager cfg_three)"
  using NewRetryManager_defaults [of cfg_three] NewRetryManager_defaults [of cfg_unbounded]
  by (simp add: cfg_three_def cfg_unbounded_def Second_def Minute_def)

text \<open>
  C10 as stated fails: a configuration with a negative jitter fraction and a negative
  base delay passes through the constructor unchanged, so neither is strictly positive.
\<close>

theorem NewRetryManager_negative_counterexample:
  "jitterRange (NewRetryManager cfg_negative) = - (1 / 2)
   \<and> \<not> 0 < jitterRange (NewRetryManager cfg_negative)
   \<and> baseDelay (NewRetryManager cfg_negative) = - 1000000000
   \<and> \<not> 0 < baseDelay (NewRetryManager cfg_negative)"
  by (simp add: NewRetryManager_def cfg_negative_def Let_def Second_def)

subsection \<open>The retry delay\<close>












subsection \<open>The retry loop\<close>

lemma shouldRetry_iff:
  "shouldRetry rm err attempt =
     (\<not> (maxRetries rm > 0 \<and> attempt \<ge> maxRetries rm) \<and> IsRetryableError rm err)"
  by (simp add: shouldRetry_def IsRetryableError_def)

lemma i64_small [simp]: "i64 1 = 1" "i64 2 = 2" "i64 3 = 3"
  by (simp_all add: i64_def)

text \<open>One turn of the loop at a failing, retryable invocation whose wait is not cancelled.\<close>

lemma retry_loop_step:
  assumes "fn env (Calls stats) = Some err" "shouldRetry rm err (i64 (attempt + 1))"
    and "\<not> cancelled env (Calls stats)"
  shows "retry_loop rm env attempt stats =
           retry_loop rm env (i64 (attempt + 1))
             (stats\<lparr>Attempts := i64 (attempt + 1), Calls := Calls stats + 1, LastError := Some err,
                CurrentDelay := calculateDelay (floats env) rm (i64 (attempt + 1)) (rand env (Calls stats))\<rparr>)"
  using assms by (subst retry_loop.simps) (simp add: Let_def)

lemma retry_loop_exhausted:
  assumes "fn env (Calls stats) = Some err" "\<not> shouldRetry rm err (i64 (attempt + 1))"
  shows "retry_loop rm env attempt stats =
           Some (Some (ExhaustedError (i64 (attempt + 1)) err),
             stats\<lparr>Attempts := i64 (attempt + 1), Calls := Calls stats + 1, LastError := Some err\<rparr>)"
  using assms by (subst retry_loop.simps) (simp add: Let_def)

lemma retry_loop_cancelled:
  assumes "fn env (Calls stats) = Some err" "shouldRetry rm err (i64 (attempt + 1))"
    and "cancelled env (Calls stats)"
  shows "retry_loop rm env attempt stats =
           Some (Some CancelledError,
             stats\<lparr>Attempts := i64 (attempt + 1), Calls := Calls stats + 1, LastError := Some err,
                CurrentDelay := calculateDelay (floats env) rm (i64 (attempt + 1)) (rand env (Calls stats))\<rparr>)"
  using assms by (subst retry_loop.simps) (simp add: Let_def)

text \<open>
  C1 (as amended). Let the operation fail on every invocation with an error the manager
  classifies as retryable (its pattern list is empty, or the error text contains one of
  the patterns). With \<open>maxRetries = 3\<close> and no cancellation during the first two waits,
  \<open>Execute\<close> returns after exactly 3 invocations with an \<open>ExhaustedError\<close> that
  carries the attempt count 3 and the error of the third invocation. With \<open>maxRetries\<close>
  unbounded (not positive), no cancellation during the first wait and the cancellation
  signal taken during the second wait, it returns \<open>CancelledError\<close> after exactly 2
  invocations.
\<close>

theorem Execute_exhausted_or_cancelled:
  assumes "\<forall>k. \<exists>err. fn env k = Some err \<and> IsRetryableError rm err"
  shows "(maxRetries rm = 3 \<and> \<not> cancelled env 0 \<and> \<not> cancelled env 1 \<longrightarrow>
            (\<exists>err stats. Execute rm env = Some (Some (ExhaustedError 3 err), stats)
               \<and> fn env 2 = Some err \<and> LastError stats = Some err
               \<and> Attempts stats = 3 \<and> Calls stats = 3))
       \<and> (maxRetries rm \<le> 0 \<and> \<not> cancelled env 0 \<and> cancelled env 1 \<longrightarrow>
            (\<exists>stats. Execute rm env = Some (Some CancelledError, stats)
               \<and> Attempts stats = 2 \<and> Calls stats = 2))"
proof -
  from assms obtain e0 e1 e2 where
    e0: "fn env 0 = Some e0" "IsRetryableError rm e0" and
    e1: "fn env 1 = Some e1" "IsRetryableError rm e1" and
    e2: "fn env 2 = Some e2" "IsRetryableError rm e2"
    by metis
  let ?s0 = "\<lparr>Attempts = 0, LastError = None, CurrentDelay = 0, Calls = 0\<rparr>"
  have three: "\<exists>err stats. Execute rm env = Some (Some (ExhaustedError 3 err), stats)
               \<and> fn env 2 = Some err \<and> LastError stats = Some err
               \<and> Attempts stats = 3 \<and> Calls stats = 3"
    if m: "maxRetries rm = 3" and c: "\<not> cancelled env 0" "\<not> cancelled env 1"
  proof -
    have "Execute rm env = retry_loop rm env 0 ?s0"
      by (simp add: Execute_def ExecuteWithStats_def)
    also have "\<dots> = retry_loop rm env 1
        (?s0\<lparr>Attempts := 1, Calls := 1, LastError := Some e0,
           CurrentDelay := calculateDelay (floats env) rm 1 (rand env 0)\<rparr>)"
      using e0 m c by (subst retry_loop_step [where err = e0]) (simp_all add: shouldRetry_iff numeral_2_eq_2 numeral_3_eq_3)
    also have "\<dots> = retry_loop rm env 2
        (?s0\<lparr>Attempts := 2, Calls := 2, LastError := Some e1,
           CurrentDelay := calculateDelay (floats env) rm 2 (rand env 1)\<rparr>)"
      using e1 m c by (subst retry_loop_step [where err = e1]) (simp_all add: shouldRetry_iff numeral_2_eq_2 numeral_3_eq_3)
    also have "\<dots> = Some (Some (ExhaustedError 3 e2),
        ?s0\<lparr>Attempts := 3, Calls := 3, LastError := Some e2,
           CurrentDelay := calculateDelay (floats env) rm 2 (rand env 1)\<rparr>)"
      using e2 m by (subst retry_loop_exhausted [where err = e2]) (simp_all add: shouldRetry_iff numeral_2_eq_2 numeral_3_eq_3)
    finally show ?thesis using e2 by simp
  qed
  have two: "\<exists>stats. Execute rm env = Some (Some CancelledError, stats)
               \<and> Attempts stats = 2 \<and> Calls stats = 2"
    if m: "maxRetries rm \<le> 0" and c: "\<not> cancelled env 0" "cancelled env 1"
  proof -
    have "Execute rm env = retry_loop rm env 0 ?s0"
      by (simp add: Execute_def ExecuteWithStats_def)
    also have "\<dots> = retry_loop rm env 1
        (?s0\<lparr>Attempts := 1, Calls := 1, LastError := Some e0,
           CurrentDelay := calculateDelay (floats env) rm 1 (rand env 0)\<rparr>)"
      using e0 m c by (subst retry_loop_step [where err = e0]) (simp_all add: shouldRetry_iff numeral_2_eq_2 numeral_3_eq_3)
    also have "\<dots> = Some (Some CancelledError,
        ?s0\<lparr>Attempts := 2, Calls := 2, LastError := Some e1,
           CurrentDelay := calculateDelay (floats env) rm 2 (rand env 1)\<rparr>)"
      using e1 m c by (subst retry_loop_cancelled [where err = e1]) (simp_all add: shouldRetry_iff numeral_2_eq_2 numeral_3_eq_3)
    finally show ?thesis by simp
  qed
  from three two show ?thesis by blast
qed

lemma env_simps:
  "fn env_timeout k = Some ''i/o timeout''" "cancelled env_timeout k = False"
  "fn env_cancel_second k = Some ''i/o timeout''" "cancelled env_cancel_second k = (k = 1)"
  "fn env_denied k = Some ''permission denied''" "cancelled env_denied k = False"
  by (simp_all add: env_timeout_def env_cancel_second_def env_denied_def always_fails_def never_def at_second_def)

theorem Execute_exhausted_or_cancelled_witness:
  "(\<forall>k. \<exists>err. fn env_timeout k = Some err \<and> IsRetryableError (NewRetryManager cfg_three) err)
   \<and> maxRetries (NewRetryManager cfg_three) = 3
   \<and> \<not> cancelled env_timeout 0 \<and> \<not> cancelled env_timeout 1
   \<and> (\<exists>stats. Execute (NewRetryManager cfg_three) env_timeout
          = Some (Some (ExhaustedError 3 ''i/o timeout''), stats) \<and> Calls stats = 3)
   \<and> (\<forall>k. \<exists>err. fn env_cancel_second k = Some err
          \<and> IsRetryableError (NewRetryManager cfg_unbounded) err)
   \<and> maxRetries (NewRetryManager cfg_unbounded) \<le> 0
   \<and> \<not> cancelled env_cancel_second 0 \<and> cancelled env_cancel_second 1
   \<and> (\<exists>stats. Execute (NewRetryManager cfg_unbounded) env_cancel_second
          = Some (Some CancelledError, stats) \<and> Calls stats = 2)"
proof -
  have r3: "retryableErrors (NewRetryManager cfg_three) = []" "maxRetries (NewRetryManager cfg_three) = 3"
    by (simp_all add: NewRetryManager_def cfg_three_def Let_def)
  have r0: "retryableErrors (NewRetryManager cfg_unbounded) = []" "maxRetries (NewRetryManager cfg_unbounded) = - 1"
    by (simp_all add: NewRetryManager_def cfg_unbounded_def Let_def)
  have h3: "\<forall>k. \<exists>err. fn env_timeout k = Some err \<and> IsRetryableError (NewRetryManager cfg_three) err"
    by (simp add: env_simps IsRetryableError_def r3)
  have h0: "\<forall>k. \<exists>err. fn env_cancel_second k = Some err
          \<and> IsRetryableError (NewRetryManager cfg_unbounded) err"
    by (simp add: env_simps IsRetryableError_def r0)
  show ?thesis
    using Execute_exhausted_or_cancelled [OF h3] Execute_exhausted_or_cancelled [OF h0] h3 h0
    by (auto simp add: r3 r0 env_simps)
qed

text \<open>
  C1 as stated fails for an operation whose error is not retryable: with a non-empty
  pattern list (as the upload command configures one) and \<open>maxRetries = 3\<close>, an
  operation that always fails with a text matching no pattern is invoked once, and the
  \<open>ExhaustedError\<close> carries the attempt count 1.
\<close>

theorem Execute_not_retryable_counterexample:
  "maxRetries (NewRetryManager cfg_patterns) = 3
   \<and> fn env_denied 0 \<noteq> None \<and> fn env_denied 1 \<noteq> None \<and> fn env_denied 2 \<noteq> None
   \<and> Execute (NewRetryManager cfg_patterns) env_denied
       = Some (Some (ExhaustedError 1 ''permission denied''),
           \<lparr>Attempts = 1, LastError = Some ''permission denied'', CurrentDelay = 0, Calls = 1\<rparr>)"
proof -
  have r: "retryableErrors (NewRetryManager cfg_patterns) = [''timeout'', ''EOF'']"
    "maxRetries (NewRetryManager cfg_patterns) = 3"
    by (simp_all add: NewRetryManager_def cfg_patterns_def Let_def)
  have n: "\<not> shouldRetry (NewRetryManager cfg_patterns) ''permission denied'' 1"
    by (simp add: shouldRetry_def r containsString_def containsSubstring_def upt_rec)
  show ?thesis
    using n by (simp add: Execute_def ExecuteWithStats_def retry_loop_exhausted [where err = "''permission denied''"] env_simps r)
qed

section \<open>The session tracker\<close>

subsection \<open>Recording progress\<close>


lemma map_of_update_same: "map_of (AList.update k v al) k = Some v"
  by (simp add: update_conv')

text \<open>
  C4 (as amended). For every registered item, \<open>UpdateFileProgress\<close> with any value,
  also one smaller than the recorded uploaded size, sets the item's uploaded size to that
  value and adds the difference to the session's aggregate uploaded size: a decrease is
  applied, not ignored.
\<close>

theorem UpdateFileProgress_sets_uploaded:
  assumes "GetFileProgress t fileName = Some file"
  shows "map_option fUploadedSize (GetFileProgress (UpdateFileProgress now fileName v t) fileName)
           = Some v
       \<and> UploadedSize (session (UpdateFileProgress now fileName v t))
           = i64 (UploadedSize (session t) + i64 (v - fUploadedSize file))"
  using assms
  by (simp add: UpdateFileProgress_def GetFileProgress_def Let_def map_of_update_same)

text \<open>\<open>MarkFileCompleted\<close> in terms of its two halves.\<close>

lemma MarkFileCompleted_eq:
  "MarkFileCompleted now fileName t =
     t\<lparr>session := (let s = markedSession now fileName (session t)
                    in if allCompleted (Files s) then s\<lparr>IsCompleted := True\<rparr> else s)\<rparr>"
  by (cases "map_of (Files (session t)) fileName")
     (simp_all add: MarkFileCompleted_def markedSession_def markedFile_def allCompleted_def Let_def)

lemma markedFile_twice: "markedFile now' (markedFile now file) = markedFile now' file"
  by (simp add: markedFile_def)

lemma markedSession_twice:
  "markedSession now' fileName (markedSession now fileName s) = markedSession now' fileName s"
proof (cases "map_of (Files s) fileName")
  case None
  then show ?thesis by (simp add: markedSession_def)
next
  case (Some f0)
  have "fIsCompleted (markedFile now f0)" by (simp add: markedFile_def)
  with Some show ?thesis
    by (simp add: markedSession_def map_of_update_same markedFile_twice)
qed

lemma markedSession_IsCompleted:
  "markedSession now fileName (s\<lparr>IsCompleted := b\<rparr>) = (markedSession now fileName s)\<lparr>IsCompleted := b\<rparr>"
  by (cases "map_of (Files s) fileName") (simp_all add: markedSession_def)

lemma allCompleted_update:
  "fIsCompleted f = fIsCompleted f' \<Longrightarrow>
     allCompleted (AList.update k f fs) = allCompleted (AList.update k f' fs)"
  by (induction fs) (auto simp: allCompleted_def)

lemma allCompleted_markedSession:
  "allCompleted (Files (markedSession now' fileName s))
     = allCompleted (Files (markedSession now fileName s))"
proof (cases "map_of (Files s) fileName")
  case None
  then show ?thesis by (simp add: markedSession_def)
next
  case (Some f0)
  have "fIsCompleted (markedFile now' f0) = fIsCompleted (markedFile now f0)"
    by (simp add: markedFile_def)
  then have "allCompleted (AList.update fileName (markedFile now' f0) (Files s))
      = allCompleted (AList.update fileName (markedFile now f0) (Files s))"
    by (rule allCompleted_update)
  with Some show ?thesis by (simp add: markedSession_def)
qed

lemma MarkFileCompleted_twice:
  "MarkFileCompleted now' fileName (MarkFileCompleted now fileName t) = MarkFileCompleted now' fileName t"
proof -
  let ?s = "markedSession now fileName (session t)"
  let ?s' = "markedSession now' fileName (session t)"
  have a: "allCompleted (Files ?s') = allCompleted (Files ?s)"
    by (rule allCompleted_markedSession)
  have b: "allCompleted (Files (markedSession now' fileName ?s)) = allCompleted (Files ?s)"
    by (simp add: markedSession_twice a)
  show ?thesis
    by (simp add: MarkFileCompleted_eq Let_def markedSession_IsCompleted markedSession_twice a b)
qed

text \<open>
  C6 (as amended). For every registered item, \<open>MarkFileCompleted\<close> is idempotent up to
  the time stamps: calling it twice yields the state that the later call alone yields.
  After the call the item's completion flag is true and its uploaded chunk count equals
  its total chunk count; its uploaded size equals its total size when the item was not
  complete before, and is left as it was when the item was already complete. The
  session's completion flag is true after the call exactly when it was true before or all
  registered items are complete: the flag is set, never cleared.
\<close>

theorem MarkFileCompleted_idempotent:
  assumes "GetFileProgress t fileName = Some file"
  shows "MarkFileCompleted now' fileName (MarkFileCompleted now fileName t)
           = MarkFileCompleted now' fileName t
       \<and> GetFileProgress (MarkFileCompleted now fileName t) fileName
           = Some (file\<lparr>fUploadedSize :=
                           (if fIsCompleted file then fUploadedSize file else fTotalSize file),
                        fIsCompleted := True, ChunksUploaded := ChunksTotal file,
                        fLastUpdate := now\<rparr>)
       \<and> IsCompleted (session (MarkFileCompleted now fileName t))
           = (IsCompleted (session t)
              \<or> allCompleted (Files (session (MarkFileCompleted now fileName t))))"
proof (intro conjI)
  show "MarkFileCompleted now' fileName (MarkFileCompleted now fileName t)
           = MarkFileCompleted now' fileName t"
    by (rule MarkFileCompleted_twice)
next
  from assms have m: "map_of (Files (session t)) fileName = Some file"
    by (simp add: GetFileProgress_def)
  then show "GetFileProgress (MarkFileCompleted now fileName t) fileName
           = Some (file\<lparr>fUploadedSize :=
                           (if fIsCompleted file then fUploadedSize file else fTotalSize file),
                        fIsCompleted := True, ChunksUploaded := ChunksTotal file,
                        fLastUpdate := now\<rparr>)"
    by (simp add: MarkFileCompleted_eq Let_def GetFileProgress_def markedSession_def
        map_of_update_same markedFile_def)
  from m show "IsCompleted (session (MarkFileCompleted now fileName t))
           = (IsCompleted (session t)
              \<or> allCompleted (Files (session (MarkFileCompleted now fileName t))))"
    by (simp add: MarkFileCompleted_eq Let_def markedSession_def)
qed


theorem UpdateFileProgress_sets_uploaded_witness:
  "GetFileProgress tr_half ''disk1.vmdk'' = Some fp_half
   \<and> map_option fUploadedSize
        (GetFileProgress (UpdateFileProgress 30 ''disk1.vmdk'' 80 tr_half) ''disk1.vmdk'') = Some 80
   \<and> UploadedSize (session (UpdateFileProgress 30 ''disk1.vmdk'' 80 tr_half)) = 80"
proof -
  have h: "GetFileProgress tr_half ''disk1.vmdk'' = Some fp_half" by code_simp
  have u: "UploadedSize (session tr_half) = 50" by code_simp
  have i: "i64 (50 + i64 (80 - 50)) = 80" by (simp add: i64_def)
  from UpdateFileProgress_sets_uploaded [OF h, of 30 80] h u i show ?thesis
    by (simp add: fp_half_def)
qed

text \<open>
  C4 as stated fails: after 50 of 100 bytes are recorded, recording 30 lowers both the
  item's uploaded size and the session's aggregate uploaded size from 50 to 30.
\<close>

theorem UpdateFileProgress_decrease_counterexample:
  "map_option fUploadedSize (GetFileProgress tr_half ''disk1.vmdk'') = Some 50
   \<and> UploadedSize (session tr_half) = 50
   \<and> (30::int) < 50
   \<and> map_option fUploadedSize
        (GetFileProgress (UpdateFileProgress 30 ''disk1.vmdk'' 30 tr_half) ''disk1.vmdk'') = Some 30
   \<and> UploadedSize (session (UpdateFileProgress 30 ''disk1.vmdk'' 30 tr_half)) = 30"
  by code_simp

theorem MarkFileCompleted_idempotent_witness:
  "GetFileProgress tr_one ''disk1.vmdk'' = Some fp_one
   \<and> MarkFileCompleted 40 ''disk1.vmdk'' (MarkFileCompleted 30 ''disk1.vmdk'' tr_one)
       = MarkFileCompleted 40 ''disk1.vmdk'' tr_one
   \<and> GetFileProgress (MarkFileCompleted 30 ''disk1.vmdk'' tr_one) ''disk1.vmdk''
       = Some (fp_one\<lparr>fUploadedSize := 100, fIsCompleted := True, ChunksUploaded := 1,
                 fLastUpdate := 30\<rparr>)
   \<and> IsCompleted (session (MarkFileCompleted 30 ''disk1.vmdk'' tr_one))"
proof -
  have h: "GetFileProgress tr_one ''disk1.vmdk'' = Some fp_one" by code_simp
  have a: "allCompleted (Files (session (MarkFileCompleted 30 ''disk1.vmdk'' tr_one)))"
    by code_simp
  from MarkFileCompleted_idempotent [OF h, of 40 30] h a show ?thesis
    by (simp add: fp_one_def)
qed

text \<open>
  C6 as stated fails in two places. An item that \<open>UpdateFileProgress\<close> completed with
  150 of 100 bytes keeps the uploaded size 150 through \<open>MarkFileCompleted\<close>; and a
  session completed before a further item was added keeps its completion flag through a
  call of \<open>MarkFileCompleted\<close> although the added item is not complete.
\<close>

theorem MarkFileCompleted_flags_counterexample:
  "map_option fIsCompleted (GetFileProgress tr_over ''disk1.vmdk'') = Some True
   \<and> map_option fTotalSize
        (GetFileProgress (MarkFileCompleted 30 ''disk1.vmdk'' tr_over) ''disk1.vmdk'') = Some 100
   \<and> map_option fUploadedSize
        (GetFileProgress (MarkFileCompleted 30 ''disk1.vmdk'' tr_over) ''disk1.vmdk'') = Some 150
   \<and> GetFileProgress tr_done_then_added ''disk1.vmdk'' \<noteq> None
   \<and> IsCompleted (session (MarkFileCompleted 50 ''disk1.vmdk'' tr_done_then_added))
   \<and> \<not> allCompleted (Files (session (MarkFileCompleted 50 ''disk1.vmdk'' tr_done_then_added)))"
  by code_simp

subsection \<open>Saving and loading\<close>


lemma asInt64_JNumber: "in_i64 n \<Longrightarrow> asInt64 (JNumber n) = Some n"
  by simp

lemma jfield_Cons:
  "jfield ((k, v) # kvs) k' = (case map_of (rev kvs) k' of None \<Rightarrow> (if k = k' then v else JNull) | Some w \<Rightarrow> w)"
  by (simp add: jfield_def map_add_def split: option.splits)

lemma unmarshal_marshal_FileProgress:
  assumes "marshalFileProgress f = Some j" "wf_FileProgress f" "utf8_FileProgress f"
  shows "unmarshalFileProgress j = Some f"
proof -
  from assms(1) have j: "j = JObject
        ([(''fileName'', JString (coerceUTF8 (FileName f))),
          (''totalSize'', JNumber (fTotalSize f)),
          (''uploadedSize'', JNumber (fUploadedSize f)),
          (''chunksTotal'', JNumber (ChunksTotal f)),
          (''chunksUploaded'', JNumber (ChunksUploaded f)),
          (''startTime'', JTime (fStartTime f)),
          (''lastUpdate'', JTime (fLastUpdate f)),
          (''isCompleted'', JBool (fIsCompleted f))]
         @ (if SHA1Hash f = [] then [] else [(''sha1Hash'', JString (coerceUTF8 (SHA1Hash f)))]))"
    by (simp add: marshalFileProgress_def split: if_splits)
  from assms(3) have v: "coerceUTF8 (FileName f) = FileName f" "coerceUTF8 (SHA1Hash f) = SHA1Hash f"
    by (simp_all add: utf8_FileProgress_def validUTF8_def)
  show ?thesis
  proof (cases "SHA1Hash f = []")
    case True
    with assms(2) show ?thesis
      unfolding j v by (simp add: jfield_def wf_FileProgress_def)
  next
    case False
    with assms(2) show ?thesis
      unfolding j v by (simp add: jfield_def wf_FileProgress_def)
  qed
qed


lemma distinct_map_sort_key: "distinct (map f (sort_key f xs)) = distinct (map f xs)"
  by (induction xs) (simp_all add: distinct_insort_key)

lemma map_of_sort_key:
  assumes "distinct (map fst kfs)"
  shows "map_of (sort_key fst kfs) = map_of kfs"
proof -
  have "distinct (map fst (sort_key fst kfs))"
    using assms by (simp add: distinct_map_sort_key)
  then show ?thesis
    using assms by (simp add: map_of_inject_set)
qed

lemma update_fresh: "k \<notin> fst ` set m \<Longrightarrow> AList.update k v m = m @ [(k, v)]"
  by (induction m) auto

lemma unmarshal_marshal_members:
  assumes "marshalMembers kfs = Some kjs"
    and "list_all (\<lambda>(k, f). wf_FileProgress f \<and> validUTF8 k \<and> utf8_FileProgress f) kfs"
    and "distinct (map fst (m @ kfs))"
  shows "unmarshalMembers kjs m = Some (m @ kfs)"
  using assms
proof (induction kfs arbitrary: kjs m)
  case Nil
  then show ?case by simp
next
  case (Cons kf kfs)
  obtain k f where kf: "kf = (k, f)" by (cases kf)
  from Cons.prems(1) kf obtain j js where
    j: "marshalFileProgress f = Some j" and js: "marshalMembers kfs = Some js"
    and kjs: "kjs = (coerceUTF8 k, j) # js"
    by (auto split: option.splits)
  from Cons.prems(2) kf have wf: "wf_FileProgress f" "utf8_FileProgress f"
      "list_all (\<lambda>(k, f). wf_FileProgress f \<and> validUTF8 k \<and> utf8_FileProgress f) kfs"
    and k: "coerceUTF8 k = k"
    by (simp_all add: validUTF8_def)
  from Cons.prems(3) kf have fresh: "k \<notin> fst ` set m" and d: "distinct (map fst ((m @ [(k, f)]) @ kfs))"
    by auto
  have "unmarshalMembers kjs m = unmarshalMembers js (AList.update k f m)"
    using unmarshal_marshal_FileProgress [OF j wf(1,2)] by (simp add: kjs k)
  also have "\<dots> = unmarshalMembers js (m @ [(k, f)])"
    using fresh by (simp add: update_fresh)
  also have "\<dots> = Some ((m @ [(k, f)]) @ kfs)"
    using js wf(3) d by (rule Cons.IH)
  finally show ?case by (simp add: kf)
qed

lemma unmarshal_marshal_Files:
  assumes "marshalFiles kfs = Some j"
    and "list_all (\<lambda>(k, f). wf_FileProgress f \<and> validUTF8 k \<and> utf8_FileProgress f) kfs"
    and "distinct (map fst kfs)"
  shows "unmarshalFiles j = Some (sort_key fst kfs)"
proof -
  from assms(1) obtain kjs where kjs: "marshalMembers (sort_key fst kfs) = Some kjs" "j = JObject kjs"
    by (auto simp: marshalFiles_def)
  have "list_all (\<lambda>(k, f). wf_FileProgress f \<and> validUTF8 k \<and> utf8_FileProgress f)
      (sort_key fst kfs)"
    using assms(2) by (simp add: list_all_iff)
  moreover have "distinct (map fst ([] @ sort_key fst kfs))"
    using assms(3) by (simp add: distinct_map_sort_key)
  ultimately have "unmarshalMembers kjs [] = Some ([] @ sort_key fst kfs)"
    using kjs(1) by (intro unmarshal_marshal_members)
  then show ?thesis by (simp add: kjs(2))
qed

lemma unmarshal_marshal_Session:
  assumes "marshalSession s = Some j" "wf_session s" "utf8_session s"
  shows "unmarshalSession j = Some (s\<lparr>Files := sort_key fst (Files s)\<rparr>)"
proof -
  from assms(1) obtain fj where fj: "marshalFiles (Files s) = Some fj"
    and j: "j = JObject
                [(''sessionId'', JString (coerceUTF8 (SessionID s))),
                 (''ovaFile'', JString (coerceUTF8 (OVAFile s))),
                 (''esxiHost'', JString (coerceUTF8 (ESXiHost s))),
                 (''datastore'', JString (coerceUTF8 (Datastore s))),
                 (''vmName'', JString (coerceUTF8 (VMName s))),
                 (''totalSize'', JNumber (TotalSize s)),
                 (''uploadedSize'', JNumber (UploadedSize s)),
                 (''startTime'', JTime (StartTime s)),
                 (''lastUpdate'', JTime (LastUpdate s)),
                 (''isCompleted'', JBool (IsCompleted s)),
                 (''files'', fj),
                 (''retryAttempts'', JNumber (RetryAttempts s))]"
    by (auto simp: marshalSession_def split: if_splits option.splits)
  from assms(3) have v: "coerceUTF8 (SessionID s) = SessionID s" "coerceUTF8 (OVAFile s) = OVAFile s"
    "coerceUTF8 (ESXiHost s) = ESXiHost s" "coerceUTF8 (Datastore s) = Datastore s"
    "coerceUTF8 (VMName s) = VMName s"
    by (simp_all add: utf8_session_def validUTF8_def)
  from assms(2,3) have "list_all (\<lambda>(k, f). wf_FileProgress f \<and> validUTF8 k \<and> utf8_FileProgress f)
      (Files s)"
    by (auto simp: wf_session_def utf8_session_def list_all_iff)
  moreover from assms(2) have "distinct (map fst (Files s))" by (simp add: wf_session_def)
  ultimately have "unmarshalFiles fj = Some (sort_key fst (Files s))"
    using fj by (intro unmarshal_marshal_Files)
  with assms(2) show ?thesis
    unfolding j v by (simp add: jfield_def wf_session_def)
qed

text \<open>
  C5 (as amended). For every session whose strings are valid UTF-8 and that \<open>Save\<close>
  persists without error, \<open>LoadTracker\<close> on the persisted file returns a tracker whose
  session has the same per-item records under the same names (every field of each record,
  the time stamps as instants), the same completion flag and the same values in every
  other field.
\<close>

theorem Save_LoadTracker_roundtrip:
  assumes "wf_session (session t)" "utf8_session (session t)" "Save t fs = Inr fs'"
  shows "\<exists>t'. LoadTracker (sessionFile t) fs' = Inr t'
           \<and> map_of (Files (session t')) = map_of (Files (session t))
           \<and> IsCompleted (session t') = IsCompleted (session t)
           \<and> (session t')\<lparr>Files := []\<rparr> = (session t)\<lparr>Files := []\<rparr>"
proof -
  from assms(3) obtain j where j: "marshalSession (session t) = Some j"
    and fs': "fs' = fs\<lparr>files := (files fs)(sessionFile t \<mapsto> j)\<rparr>"
    by (auto simp: Save_def split: option.splits if_splits)
  have u: "unmarshalSession j = Some ((session t)\<lparr>Files := sort_key fst (Files (session t))\<rparr>)"
    using j assms(1,2) by (rule unmarshal_marshal_Session)
  have d: "distinct (map fst (Files (session t)))"
    using assms(1) by (simp add: wf_session_def)
  show ?thesis
    using u by (simp add: LoadTracker_def fs' map_of_sort_key [OF d])
qed

theorem Save_LoadTracker_roundtrip_witness:
  "wf_session (session tr_half) \<and> utf8_session (session tr_half)
   \<and> save_then_load tr_half empty_fs = Inr tr_half
   \<and> GetFileProgress tr_half ''disk1.vmdk'' = Some fp_half"
proof -
  have w: "wf_session (session tr_half)" by code_simp
  have v: "utf8_session (session tr_half)" by code_simp
  have "marshalSession (session tr_half) \<noteq> None" by code_simp
  then obtain fs' where s: "Save tr_half empty_fs = Inr fs'"
    by (auto simp: Save_def empty_fs_def everywhere_def)
  have h: "GetFileProgress tr_half ''disk1.vmdk'' = Some fp_half" by code_simp
  have l: "save_then_load tr_half empty_fs = Inr tr_half" by code_simp
  from Save_LoadTracker_roundtrip [OF w v s] w v h l show ?thesis
    by simp
qed

text \<open>
  C5 as stated fails for a session that holds a string which is not valid UTF-8: the
  encoder replaces the offending byte, so the item registered under a Latin-1 name is
  reloaded under another name, with another \<open>FileName\<close>, and is not found under its own.
\<close>

theorem Save_LoadTracker_invalid_utf8_counterexample:
  "wf_session (session tr_latin1)
   \<and> GetFileProgress tr_latin1 name_latin1 \<noteq> None
   \<and> save_then_load tr_latin1 empty_fs = Inr tr_latin1_loaded
   \<and> GetFileProgress tr_latin1_loaded name_latin1 = None
   \<and> map fst (Files (session tr_latin1_loaded)) \<noteq> map fst (Files (session tr_latin1))"
  by code_simp

section \<open>The archive parser\<close>

subsection \<open>The loop over the headers\<close>

lemma sizes_nonneg: "\<forall>h\<in>set hs. 0 \<le> hSize h \<Longrightarrow> 0 \<le> sum_list (map hSize hs)"
  by (induction hs) auto

lemma isOVF_not_isVMDK: "isOVF mapLower h \<Longrightarrow> \<not> isVMDK mapLower h"
  by (auto simp: isOVF_def isVMDK_def)

lemma scanHeaders_VMDKFiles:
  "VMDKFiles (scanHeaders mapLower hs off pkg) = VMDKFiles pkg @ vmdkOf mapLower hs off"
  by (induction mapLower hs off pkg rule: scanHeaders.induct) (auto simp: Let_def isVMDK_def)

lemma scanHeaders_OVFFile:
  "(OVFFile (scanHeaders mapLower hs off pkg) = None) = (OVFFile pkg = None \<and> \<not> list_ex (isOVF mapLower) hs)"
  by (induction mapLower hs off pkg rule: scanHeaders.induct) (auto simp: Let_def isOVF_def)

lemma vmdkOf_empty: "(vmdkOf mapLower hs off = []) = (\<not> list_ex (isVMDK mapLower) hs)"
  by (induction mapLower hs off rule: vmdkOf.induct) auto

lemma vmdkOf_Name: "map Name (vmdkOf mapLower hs off) = map hName (filter (isVMDK mapLower) hs)"
  by (induction mapLower hs off rule: vmdkOf.induct) auto

lemma vmdkOf_Size: "map Size (vmdkOf mapLower hs off) = map hSize (filter (isVMDK mapLower) hs)"
  by (induction mapLower hs off rule: vmdkOf.induct) auto

text \<open>No addition of the loop overflows when the sizes add up within \<^verbatim>\<open>int64\<close>.\<close>

lemma vmdkOf_bounds:
  assumes "0 \<le> off" "\<forall>h\<in>set hs. 0 \<le> hSize h" "off + sum_list (map hSize hs) \<le> MaxInt64"
    and "f \<in> set (vmdkOf mapLower hs off)"
  shows "off \<le> Offset f \<and> 0 \<le> Size f \<and> Offset f + Size f \<le> off + sum_list (map hSize hs)"
  using assms
proof (induction mapLower hs off rule: vmdkOf.induct)
  case (1 mapLower offset)
  then show ?case by simp
next
  case (2 mapLower header rest offset)
  have s: "0 \<le> hSize header" "0 \<le> sum_list (map hSize rest)"
    using "2.prems"(2) by (simp_all add: sizes_nonneg)
  then have i: "i64 (offset + hSize header) = offset + hSize header"
    using "2.prems"(1,3) by (intro i64_id) (simp add: in_i64_def MinInt64_def MaxInt64_def)
  show ?case
  proof (cases "f \<in> set (vmdkOf mapLower rest (i64 (offset + hSize header)))")
    case True
    then have "offset + hSize header \<le> Offset f \<and> 0 \<le> Size f
        \<and> Offset f + Size f \<le> offset + hSize header + sum_list (map hSize rest)"
      using "2.IH" [of ] "2.prems"(1-3) s unfolding i by simp
    with s show ?thesis by simp
  next
    case False
    with "2.prems"(4) have "f = \<lparr>Name = hName header, Size = hSize header, Offset = offset, oSHA1Hash = []\<rparr>"
      by (auto split: if_splits)
    with s show ?thesis by simp
  qed
qed

lemma vmdkOf_sorted:
  assumes "0 \<le> off" "\<forall>h\<in>set hs. 0 \<le> hSize h" "off + sum_list (map hSize hs) \<le> MaxInt64"
  shows "sorted_wrt (\<lambda>f g. Offset f + Size f \<le> Offset g) (vmdkOf mapLower hs off)"
  using assms
proof (induction mapLower hs off rule: vmdkOf.induct)
  case (1 mapLower offset)
  then show ?case by simp
next
  case (2 mapLower header rest offset)
  have s: "0 \<le> hSize header" "0 \<le> sum_list (map hSize rest)"
    using "2.prems"(2) by (simp_all add: sizes_nonneg)
  then have i: "i64 (offset + hSize header) = offset + hSize header"
    using "2.prems"(1,3) by (intro i64_id) (simp add: in_i64_def MinInt64_def MaxInt64_def)
  have r: "sorted_wrt (\<lambda>f g. Offset f + Size f \<le> Offset g) (vmdkOf mapLower rest (offset + hSize header))"
    using "2.IH" "2.prems" s unfolding i by simp
  have "offset + hSize header \<le> Offset g" if "g \<in> set (vmdkOf mapLower rest (offset + hSize header))" for g
    using vmdkOf_bounds [where off = "offset + hSize header" and hs = rest and f = g] that "2.prems" s by simp
  with r show ?case by (simp add: i)
qed

lemma scanHeaders_ManifestFile:
  assumes "0 \<le> off" "\<forall>h\<in>set hs. 0 \<le> hSize h" "off + sum_list (map hSize hs) \<le> MaxInt64"
    and "ManifestFile (scanHeaders mapLower hs off pkg) = Some m"
    and "\<And>m'. ManifestFile pkg = Some m' \<Longrightarrow> 0 \<le> Offset m' \<and> 0 \<le> Size m' \<and> Offset m' + Size m' \<le> off"
  shows "0 \<le> Offset m \<and> 0 \<le> Size m \<and> Offset m + Size m \<le> off + sum_list (map hSize hs)"
  using assms
proof (induction mapLower hs off pkg rule: scanHeaders.induct)
  case (1 mapLower offset pkg)
  then show ?case by simp
next
  case (2 mapLower header rest offset pkg)
  have s: "0 \<le> hSize header" "0 \<le> sum_list (map hSize rest)"
    using "2.prems"(2) by (simp_all add: sizes_nonneg)
  then have i: "i64 (offset + hSize header) = offset + hSize header"
    using "2.prems"(1,3) by (intro i64_id) (simp add: in_i64_def MinInt64_def MaxInt64_def)
  have pre: "0 \<le> offset + hSize header" "\<forall>h\<in>set rest. 0 \<le> hSize h"
    "offset + hSize header + sum_list (map hSize rest) \<le> MaxInt64"
    using "2.prems"(1-3) s by simp_all
  show ?case
  proof (cases "hTypeflag header \<noteq> TypeReg")
    case True
    then have "ManifestFile (scanHeaders mapLower rest (offset + hSize header) pkg) = Some m"
      using "2.prems"(4) by (simp add: i)
    moreover have "0 \<le> Offset m' \<and> 0 \<le> Size m' \<and> Offset m' + Size m' \<le> offset + hSize header"
      if "ManifestFile pkg = Some m'" for m'
      using "2.prems"(5) [OF that] s by simp
    ultimately have "0 \<le> Offset m \<and> 0 \<le> Size m
        \<and> Offset m + Size m \<le> offset + hSize header + sum_list (map hSize rest)"
      using "2.IH"(1) [OF True] pre unfolding i by blast
    then show ?thesis by simp
  next
    case False
    define ovaFile where "ovaFile = \<lparr>Name = hName header, Size = hSize header, Offset = offset, oSHA1Hash = []\<rparr>"
    define ext where "ext = ToLower mapLower (Ext (hName header))"
    define pkg' where "pkg' = (if ext = ''.ovf'' then pkg\<lparr>OVFFile := Some ovaFile\<rparr>
                    else if ext = ''.vmdk'' then pkg\<lparr>VMDKFiles := VMDKFiles pkg @ [ovaFile]\<rparr>
                    else if ext = ''.mf'' then pkg\<lparr>ManifestFile := Some ovaFile\<rparr>
                    else if ext = ''.cert'' then pkg\<lparr>CertFile := Some ovaFile\<rparr>
                    else pkg)"
    from False have "scanHeaders mapLower (header # rest) offset pkg
        = scanHeaders mapLower rest (offset + hSize header) pkg'"
      unfolding pkg'_def ext_def ovaFile_def by (simp add: i Let_def split del: if_split)
    then have "ManifestFile (scanHeaders mapLower rest (offset + hSize header) pkg') = Some m"
      using "2.prems"(4) by simp
    moreover have "0 \<le> Offset m' \<and> 0 \<le> Size m' \<and> Offset m' + Size m' \<le> offset + hSize header"
      if "ManifestFile pkg' = Some m'" for m'
    proof (cases "ManifestFile pkg' = ManifestFile pkg")
      case True
      with that "2.prems"(5) [of m'] s show ?thesis by simp
    next
      case False
      then have "m' = ovaFile" using that by (auto simp: pkg'_def split: if_splits)
      with s "2.prems"(1) show ?thesis by (simp add: ovaFile_def)
    qed
    ultimately have "0 \<le> Offset m \<and> 0 \<le> Size m
        \<and> Offset m + Size m \<le> offset + hSize header + sum_list (map hSize rest)"
      using "2.IH"(2) [OF _ ovaFile_def ext_def pkg'_def] False pre unfolding i by blast
    then show ?thesis by simp
  qed
qed

subsection \<open>Payload descriptors and their offsets\<close>

lemma updateHashes_fields:
  "map Name (VMDKFiles (updateHashesFromManifest pkg manifest)) = map Name (VMDKFiles pkg)"
  "map Size (VMDKFiles (updateHashesFromManifest pkg manifest)) = map Size (VMDKFiles pkg)"
  "map Offset (VMDKFiles (updateHashesFromManifest pkg manifest)) = map Offset (VMDKFiles pkg)"
  by (simp_all add: updateHashesFromManifest_def Let_def withHash_def comp_def split: option.splits)

lemma sorted_wrt_updateHashes:
  "sorted_wrt (\<lambda>f g. Offset f + Size f \<le> Offset g) (VMDKFiles (updateHashesFromManifest pkg manifest))
     = sorted_wrt (\<lambda>f g. Offset f + Size f \<le> Offset g) (VMDKFiles pkg)"
proof -
  have "sorted_wrt (\<lambda>f g. Offset f + Size f \<le> Offset g) (map (withHash mm) fs)
      = sorted_wrt (\<lambda>f g. Offset f + Size f \<le> Offset g) fs" for mm fs
    by (simp add: sorted_wrt_map withHash_def split: option.splits)
      (rule arg_cong [where f = "\<lambda>R. sorted_wrt R fs"], auto simp: fun_eq_iff split: option.splits)
  then show ?thesis by (simp add: updateHashesFromManifest_def Let_def)
qed

text \<open>What the pairwise bound gives for the offsets alone.\<close>

lemma offsets_sorted:
  assumes "sorted_wrt (\<lambda>f g. Offset f + Size f \<le> Offset g) fs" "\<forall>f\<in>set fs. 0 \<le> Size f"
  shows "sorted (map Offset fs)"
  using assms by (induction fs) (auto simp: sorted_wrt_map) 

lemma offsets_strict:
  assumes "sorted_wrt (\<lambda>f g. Offset f + Size f \<le> Offset g) fs" "\<forall>f\<in>set fs. 0 < Size f"
  shows "sorted_wrt (<) (map Offset fs)"
  using assms by (induction fs) (auto simp: sorted_wrt_map)

text \<open>
  C7 (as amended). Take an archive that is opened and read to its end without error, whose
  entry sizes are not negative and add up to at most the size of the file (as they do when
  the data of every entry is stored in the file), and that contains a configuration
  descriptor and \<open>N \<ge> 1\<close> payload entries. Then \<open>ParseOVA\<close> returns a package with
  exactly \<open>N\<close> payload descriptors, with the names and sizes of the payload entries in
  archive order; their offsets are in ascending order, not necessarily strictly; for every
  two descriptors \<open>f\<close> before \<open>g\<close>, \<open>Offset f + Size f \<le> Offset g\<close>; and the offsets
  are strictly increasing when every payload entry has a positive size.
\<close>

theorem ParseOVA_payload_offsets:
  assumes "d ovaPath = Some a" "\<not> statFails a" "\<not> truncated a"
    and "\<forall>h\<in>set (headers a). 0 \<le> hSize h"
    and "sum_list (map hSize (headers a)) \<le> int (length (bytes a))"
    and "int (length (bytes a)) \<le> MaxInt64"
    and "list_ex (isOVF mapLower) (headers a)" "list_ex (isVMDK mapLower) (headers a)"
  shows "\<exists>pkg. ParseOVA mapLower d ovaPath = Inr pkg
           \<and> length (VMDKFiles pkg) = length (filter (isVMDK mapLower) (headers a))
           \<and> map Name (VMDKFiles pkg) = map hName (filter (isVMDK mapLower) (headers a))
           \<and> map Size (VMDKFiles pkg) = map hSize (filter (isVMDK mapLower) (headers a))
           \<and> sorted (map Offset (VMDKFiles pkg))
           \<and> sorted_wrt (\<lambda>f g. Offset f + Size f \<le> Offset g) (VMDKFiles pkg)
           \<and> ((\<forall>f\<in>set (VMDKFiles pkg). 0 < Size f) \<longrightarrow>
                sorted_wrt (<) (map Offset (VMDKFiles pkg)))"
proof -
  define pkg0 where "pkg0 = \<lparr>FilePath = ovaPath, OVFFile = None, VMDKFiles = [],
     ManifestFile = None, CertFile = None, pTotalSize = int (length (bytes a))\<rparr>"
  define pkg1 where "pkg1 = scanHeaders mapLower (headers a) 0 pkg0"
  have fit: "0 + sum_list (map hSize (headers a)) \<le> MaxInt64"
    using assms(5,6) by simp
  have v: "VMDKFiles pkg1 = vmdkOf mapLower (headers a) 0"
    by (simp add: pkg1_def pkg0_def scanHeaders_VMDKFiles)
  have o: "OVFFile pkg1 \<noteq> None"
    using assms(7) by (simp add: pkg1_def pkg0_def scanHeaders_OVFFile)
  have n: "length (VMDKFiles pkg1) \<noteq> 0"
    using assms(8) by (simp add: v vmdkOf_empty)
  have names: "map Name (VMDKFiles pkg1) = map hName (filter (isVMDK mapLower) (headers a))"
    and sizes: "map Size (VMDKFiles pkg1) = map hSize (filter (isVMDK mapLower) (headers a))"
    by (simp_all add: v vmdkOf_Name vmdkOf_Size)
  have pw: "sorted_wrt (\<lambda>f g. Offset f + Size f \<le> Offset g) (VMDKFiles pkg1)"
    unfolding v using assms(4) fit by (intro vmdkOf_sorted) simp_all
  have nonneg: "\<forall>f\<in>set (VMDKFiles pkg1). 0 \<le> Size f"
    unfolding v using vmdkOf_bounds [where off = 0 and hs = "headers a"] assms(4) fit by blast
  txt \<open>The manifest, when there is one, lies within the file, so reading it succeeds.\<close>
  have m: "\<exists>manifest. parseManifestFile mapLower d ovaPath mf = Inr manifest"
    if "ManifestFile pkg1 = Some mf" for mf
  proof -
    have "0 \<le> Offset mf \<and> 0 \<le> Size mf
        \<and> Offset mf + Size mf \<le> 0 + sum_list (map hSize (headers a))"
      using that assms(4) fit unfolding pkg1_def
      by (intro scanHeaders_ManifestFile [where pkg = pkg0]) (simp_all add: pkg0_def)
    with assms(5) have "0 \<le> Offset mf" "0 \<le> Size mf"
      "\<not> int (length (drop (nat (Offset mf)) (bytes a))) < Size mf"
      by auto
    then show ?thesis
      using assms(1) by (simp add: parseManifestFile_def readAt_def)
  qed
  obtain pkg where p: "ParseOVA mapLower d ovaPath = Inr pkg"
    and same: "map Name (VMDKFiles pkg) = map Name (VMDKFiles pkg1)"
      "map Size (VMDKFiles pkg) = map Size (VMDKFiles pkg1)"
      "map Offset (VMDKFiles pkg) = map Offset (VMDKFiles pkg1)"
    and pw': "sorted_wrt (\<lambda>f g. Offset f + Size f \<le> Offset g) (VMDKFiles pkg)"
  proof (cases "ManifestFile pkg1")
    case None
    with assms(1-3) o n have "ParseOVA mapLower d ovaPath = Inr pkg1"
      by (simp add: ParseOVA_def Let_def pkg1_def [symmetric] pkg0_def [symmetric])
    with pw that show ?thesis by blast
  next
    case (Some mf)
    from m [OF Some] obtain manifest where "parseManifestFile mapLower d ovaPath mf = Inr manifest" ..
    with Some assms(1-3) o n
    have "ParseOVA mapLower d ovaPath = Inr (updateHashesFromManifest pkg1 manifest)"
      by (simp add: ParseOVA_def Let_def pkg1_def [symmetric] pkg0_def [symmetric])
    with pw that show ?thesis
      by (simp add: updateHashes_fields sorted_wrt_updateHashes)
  qed
  have sz: "\<forall>f\<in>set (VMDKFiles pkg). 0 \<le> Size f"
  proof -
    have "set (map Size (VMDKFiles pkg)) = set (map Size (VMDKFiles pkg1))"
      using same(2) by simp
    with nonneg show ?thesis by (metis (no_types, lifting) image_iff list.set_map)
  qed
  have "length (VMDKFiles pkg) = length (filter (isVMDK mapLower) (headers a))"
    using same(1) names by (metis length_map)
  moreover have "sorted (map Offset (VMDKFiles pkg))"
    using pw' sz by (rule offsets_sorted)
  moreover have "sorted_wrt (<) (map Offset (VMDKFiles pkg))"
    if "\<forall>f\<in>set (VMDKFiles pkg). 0 < Size f"
    using pw' that by (rule offsets_strict)
  ultimately show ?thesis
    using p same names sizes pw' by auto
qed

theorem ParseOVA_payload_offsets_witness:
  "disk_of ar_two ''vm.ova'' = Some ar_two \<and> \<not> statFails ar_two \<and> \<not> truncated ar_two
   \<and> list_all (\<lambda>h. 0 \<le> hSize h) (headers ar_two)
   \<and> sum_list (map hSize (headers ar_two)) \<le> int (length (bytes ar_two))
   \<and> int (length (bytes ar_two)) \<le> MaxInt64
   \<and> list_ex (isOVF lowerKelvin) (headers ar_two)
   \<and> length (filter (isVMDK lowerKelvin) (headers ar_two)) = 2
   \<and> (\<exists>pkg. ParseOVA lowerKelvin (disk_of ar_two) ''vm.ova'' = Inr pkg
         \<and> length (VMDKFiles pkg) = 2
         \<and> map Name (VMDKFiles pkg) = [''disk1.vmdk'', ''Disk2.VMDK'']
         \<and> map Offset (VMDKFiles pkg) = [10, 33]
         \<and> sorted_wrt (<) (map Offset (VMDKFiles pkg)))
   \<and> disk_of ar_kelvin ''vm.ova'' = Some ar_kelvin \<and> \<not> statFails ar_kelvin
   \<and> \<not> truncated ar_kelvin
   \<and> list_all (\<lambda>h. 0 \<le> hSize h) (headers ar_kelvin)
   \<and> sum_list (map hSize (headers ar_kelvin)) \<le> int (length (bytes ar_kelvin))
   \<and> int (length (bytes ar_kelvin)) \<le> MaxInt64
   \<and> list_ex (isOVF lowerKelvin) (headers ar_kelvin)
   \<and> length (filter (isVMDK lowerKelvin) (headers ar_kelvin)) = 2
   \<and> (\<exists>pkg. ParseOVA lowerKelvin (disk_of ar_kelvin) ''vm.ova'' = Inr pkg
         \<and> length (VMDKFiles pkg) = 2
         \<and> map Name (VMDKFiles pkg) = [''a.vmdk'', name_kelvin]
         \<and> map Offset (VMDKFiles pkg) = [10, 30]
         \<and> sorted_wrt (<) (map Offset (VMDKFiles pkg)))"
proof -
  have h: "disk_of ar_two ''vm.ova'' = Some ar_two" "\<not> statFails ar_two" "\<not> truncated ar_two"
    "list_all (\<lambda>h. 0 \<le> hSize h) (headers ar_two)"
    "sum_list (map hSize (headers ar_two)) \<le> int (length (bytes ar_two))"
    "int (length (bytes ar_two)) \<le> MaxInt64"
    "list_ex (isOVF lowerKelvin) (headers ar_two)" "list_ex (isVMDK lowerKelvin) (headers ar_two)"
    by code_simp+
  have n: "length (filter (isVMDK lowerKelvin) (headers ar_two)) = 2" by code_simp
  have o: "map Offset (VMDKFiles (projr (ParseOVA lowerKelvin (disk_of ar_two) ''vm.ova''))) = [10, 33]"
    "map Name (VMDKFiles (projr (ParseOVA lowerKelvin (disk_of ar_two) ''vm.ova'')))
       = [''disk1.vmdk'', ''Disk2.VMDK'']"
    by code_simp+
  from h(4) have b: "\<forall>h\<in>set (headers ar_two). 0 \<le> hSize h" by (simp add: list_all_iff)
  from ParseOVA_payload_offsets [where d = "disk_of ar_two" and ovaPath = "''vm.ova''"
      and a = ar_two and mapLower = lowerKelvin, OF h(1-3) b h(5-8)]
  obtain pkg where
    p: "ParseOVA lowerKelvin (disk_of ar_two) ''vm.ova'' = Inr pkg"
      "length (VMDKFiles pkg) = length (filter (isVMDK lowerKelvin) (headers ar_two))"
    by blast
  with o have "map Offset (VMDKFiles pkg) = [10, 33]"
    "map Name (VMDKFiles pkg) = [''disk1.vmdk'', ''Disk2.VMDK'']" by simp_all
  with p n have two: "\<exists>pkg. ParseOVA lowerKelvin (disk_of ar_two) ''vm.ova'' = Inr pkg
         \<and> length (VMDKFiles pkg) = 2
         \<and> map Name (VMDKFiles pkg) = [''disk1.vmdk'', ''Disk2.VMDK'']
         \<and> map Offset (VMDKFiles pkg) = [10, 33]
         \<and> sorted_wrt (<) (map Offset (VMDKFiles pkg))"
    by simp
  have hk: "disk_of ar_kelvin ''vm.ova'' = Some ar_kelvin" "\<not> statFails ar_kelvin"
    "\<not> truncated ar_kelvin"
    "list_all (\<lambda>h. 0 \<le> hSize h) (headers ar_kelvin)"
    "sum_list (map hSize (headers ar_kelvin)) \<le> int (length (bytes ar_kelvin))"
    "int (length (bytes ar_kelvin)) \<le> MaxInt64"
    "list_ex (isOVF lowerKelvin) (headers ar_kelvin)"
    "list_ex (isVMDK lowerKelvin) (headers ar_kelvin)"
    by code_simp+
  have nk: "length (filter (isVMDK lowerKelvin) (headers ar_kelvin)) = 2" by code_simp
  have ok: "map Offset (VMDKFiles (projr (ParseOVA lowerKelvin (disk_of ar_kelvin) ''vm.ova'')))
       = [10, 30]"
    "map Name (VMDKFiles (projr (ParseOVA lowerKelvin (disk_of ar_kelvin) ''vm.ova'')))
       = [''a.vmdk'', name_kelvin]"
    by code_simp+
  from hk(4) have bk: "\<forall>h\<in>set (headers ar_kelvin). 0 \<le> hSize h" by (simp add: list_all_iff)
  from ParseOVA_payload_offsets [where d = "disk_of ar_kelvin" and ovaPath = "''vm.ova''"
      and a = ar_kelvin and mapLower = lowerKelvin, OF hk(1-3) bk hk(5-8)]
  obtain pkg where
    pk: "ParseOVA lowerKelvin (disk_of ar_kelvin) ''vm.ova'' = Inr pkg"
      "length (VMDKFiles pkg) = length (filter (isVMDK lowerKelvin) (headers ar_kelvin))"
    by blast
  with ok have "map Offset (VMDKFiles pkg) = [10, 30]"
    "map Name (VMDKFiles pkg) = [''a.vmdk'', name_kelvin]" by simp_all
  with pk nk have kelvin: "\<exists>pkg. ParseOVA lowerKelvin (disk_of ar_kelvin) ''vm.ova'' = Inr pkg
         \<and> length (VMDKFiles pkg) = 2
         \<and> map Name (VMDKFiles pkg) = [''a.vmdk'', name_kelvin]
         \<and> map Offset (VMDKFiles pkg) = [10, 30]
         \<and> sorted_wrt (<) (map Offset (VMDKFiles pkg))"
    by simp
  from two kelvin h hk n nk show ?thesis by simp
qed

text \<open>
  C7 as stated fails for an archive with a payload entry of size 0 that another payload
  entry follows: both descriptors get the offset 10, so the offsets do not strictly
  increase.
\<close>

theorem ParseOVA_empty_payload_counterexample:
  "list_ex (isOVF lowerKelvin) (headers ar_empty_disk)
   \<and> map hName (filter (isVMDK lowerKelvin) (headers ar_empty_disk)) = [''disk1.vmdk'', ''disk2.vmdk'']
   \<and> \<not> isl (ParseOVA lowerKelvin (disk_of ar_empty_disk) ''vm.ova'')
   \<and> map Name (VMDKFiles (projr (ParseOVA lowerKelvin (disk_of ar_empty_disk) ''vm.ova'')))
       = [''disk1.vmdk'', ''disk2.vmdk'']
   \<and> map Offset (VMDKFiles (projr (ParseOVA lowerKelvin (disk_of ar_empty_disk) ''vm.ova'')))
       = [10, 10]
   \<and> \<not> sorted_wrt (<)
         (map Offset (VMDKFiles (projr (ParseOVA lowerKelvin (disk_of ar_empty_disk) ''vm.ova''))))"
  by code_simp

subsection \<open>Missing entries\<close>



text \<open>
  C8 as stated fails for an archive whose tar stream breaks off: \<open>ParseOVA\<close> returns the
  error of the tar reader, whatever entries it has read. Of the first archive the reader
  yields a payload entry and no configuration descriptor, of the second a configuration
  descriptor and no payload entry; neither gets the error of a missing entry.
\<close>

theorem ParseOVA_truncated_counterexample:
  "disk_of ar_cut_no_ovf ''vm.ova'' = Some ar_cut_no_ovf
   \<and> \<not> list_ex (isOVF lowerKelvin) (headers ar_cut_no_ovf)
   \<and> ParseOVA lowerKelvin (disk_of ar_cut_no_ovf) ''vm.ova'' = Inl ReadTarFailed
   \<and> ParseOVA lowerKelvin (disk_of ar_cut_no_ovf) ''vm.ova'' \<noteq> Inl NoOVFFile
   \<and> disk_of ar_cut_no_vmdk ''vm.ova'' = Some ar_cut_no_vmdk
   \<and> list_ex (isOVF lowerKelvin) (headers ar_cut_no_vmdk)
   \<and> \<not> list_ex (isVMDK lowerKelvin) (headers ar_cut_no_vmdk)
   \<and> ParseOVA lowerKelvin (disk_of ar_cut_no_vmdk) ''vm.ova'' = Inl ReadTarFailed
   \<and> ParseOVA lowerKelvin (disk_of ar_cut_no_vmdk) ''vm.ova'' \<noteq> Inl NoVMDKFiles"
  by code_simp

subsection \<open>Checksum validation\<close>

text \<open>
  C9. \<open>ValidateFileChecksum\<close> succeeds for every entry whose recorded hash is empty,
  whatever the content and even when the archive cannot be opened. For an entry with a
  recorded hash whose \<open>Size\<close> bytes at \<open>Offset\<close> lie within the file, it fails with
  \<open>ChecksumMismatch\<close>, carrying the entry's name, the recorded hash and the calculated
  hash, when the hash of those bytes and the recorded hash differ after lower-casing both,
  and succeeds when they agree. This holds for every digest function \<open>sha1hex\<close>, so for
  SHA-1.
\<close>

theorem ValidateFileChecksum_cases:
  "(oSHA1Hash f = [] \<longrightarrow> ValidateFileChecksum sha1hex mapLower d p f = None)
   \<and> (oSHA1Hash f \<noteq> [] \<and> d p = Some a \<and> 0 \<le> Offset f \<and> 0 \<le> Size f
        \<and> Offset f + Size f \<le> int (length (bytes a)) \<longrightarrow>
        ValidateFileChecksum sha1hex mapLower d p f =
          (if ToLower mapLower (sha1hex (take (nat (Size f)) (drop (nat (Offset f)) (bytes a))))
                \<noteq> ToLower mapLower (oSHA1Hash f)
           then Some (ChecksumMismatch (Name f) (oSHA1Hash f)
                        (sha1hex (take (nat (Size f)) (drop (nat (Offset f)) (bytes a)))))
           else None))"
proof (intro conjI impI)
  assume "oSHA1Hash f = []"
  then show "ValidateFileChecksum sha1hex mapLower d p f = None"
    by (simp add: ValidateFileChecksum_def)
next
  assume h: "oSHA1Hash f \<noteq> [] \<and> d p = Some a \<and> 0 \<le> Offset f \<and> 0 \<le> Size f
        \<and> Offset f + Size f \<le> int (length (bytes a))"
  then have "CopyN (bytes a) (Offset f) (Size f)
      = Inr (take (nat (Size f)) (drop (nat (Offset f)) (bytes a)))"
    by (auto simp: CopyN_def)
  with h show "ValidateFileChecksum sha1hex mapLower d p f =
          (if ToLower mapLower (sha1hex (take (nat (Size f)) (drop (nat (Offset f)) (bytes a))))
                \<noteq> ToLower mapLower (oSHA1Hash f)
           then Some (ChecksumMismatch (Name f) (oSHA1Hash f)
                        (sha1hex (take (nat (Size f)) (drop (nat (Offset f)) (bytes a)))))
           else None)"
    by (simp add: ValidateFileChecksum_def Let_def)
qed

text \<open>
  The digest of the examples on the test vectors of the standard, the last of two blocks.
\<close>

lemma sha1_hexdigest_vectors:
  "sha1_hexdigest [] = ''da39a3ee5e6b4b0d3255bfef95601890afd80709''"
  "sha1_hexdigest ''abc'' = ''a9993e364706816aba3e25717850c26c9cd0d89d''"
  "sha1_hexdigest ''abcdbcdecdefdefgefghfghighijhijkijkljklmklmnlmnomnopnopq''
     = ''84983e441c3bd26ebaae4aa1f95129e5e54670f1''"
  by code_simp+

theorem ValidateFileChecksum_cases_witness:
  "oSHA1Hash file_nohash = []
   \<and> ValidateFileChecksum sha1_hexdigest lowerKelvin (disk_of ar_abc) ''vm.ova'' file_nohash = None
   \<and> ValidateFileChecksum sha1_hexdigest lowerKelvin (disk_of ar_abc) ''missing.ova'' file_nohash
       = None
   \<and> disk_of ar_abc ''vm.ova'' = Some ar_abc
   \<and> oSHA1Hash file_badhash \<noteq> [] \<and> 0 \<le> Offset file_badhash \<and> 0 < Size file_badhash
   \<and> Offset file_badhash + Size file_badhash \<le> int (length (bytes ar_abc))
   \<and> take (nat (Size file_badhash)) (drop (nat (Offset file_badhash)) (bytes ar_abc)) = ''abc''
   \<and> ValidateFileChecksum sha1_hexdigest lowerKelvin (disk_of ar_abc) ''vm.ova'' file_badhash
       = Some (ChecksumMismatch ''disk1.vmdk'' ''A9993E364706816ABA3E25717850C26C9CD0D89E''
                 ''a9993e364706816aba3e25717850c26c9cd0d89d'')
   \<and> oSHA1Hash file_shifted \<noteq> [] \<and> 0 \<le> Offset file_shifted \<and> 0 < Size file_shifted
   \<and> Offset file_shifted + Size file_shifted \<le> int (length (bytes ar_abc))
   \<and> take (nat (Size file_shifted)) (drop (nat (Offset file_shifted)) (bytes ar_abc))
       = [CHR ''b'', CHR ''c'', CHR 0x00]
   \<and> ValidateFileChecksum sha1_hexdigest lowerKelvin (disk_of ar_abc) ''vm.ova'' file_shifted
       = Some (ChecksumMismatch ''disk1.vmdk'' ''A9993E364706816ABA3E25717850C26C9CD0D89D''
                 ''6e91ce6dfc892757e788dceee114304d9768ab88'')
   \<and> oSHA1Hash file_goodhash \<noteq> [] \<and> 0 \<le> Offset file_goodhash \<and> 0 < Size file_goodhash
   \<and> Offset file_goodhash + Size file_goodhash \<le> int (length (bytes ar_abc))
   \<and> take (nat (Size file_goodhash)) (drop (nat (Offset file_goodhash)) (bytes ar_abc)) = ''abc''
   \<and> ValidateFileChecksum sha1_hexdigest lowerKelvin (disk_of ar_abc) ''vm.ova'' file_goodhash
       = None"
proof -
  have d: "disk_of ar_abc ''vm.ova'' = Some ar_abc" by code_simp
  have n: "oSHA1Hash file_nohash = []" by code_simp
  have n1: "ValidateFileChecksum sha1_hexdigest lowerKelvin (disk_of ar_abc) ''vm.ova'' file_nohash
      = None"
    using ValidateFileChecksum_cases [of file_nohash sha1_hexdigest lowerKelvin "disk_of ar_abc"
        "''vm.ova''" ar_abc] n
    by simp
  have n2: "ValidateFileChecksum sha1_hexdigest lowerKelvin (disk_of ar_abc) ''missing.ova''
      file_nohash = None"
    using ValidateFileChecksum_cases [of file_nohash sha1_hexdigest lowerKelvin "disk_of ar_abc"
        "''missing.ova''" ar_abc] n
    by simp
  have b: "oSHA1Hash file_badhash \<noteq> []" "0 \<le> Offset file_badhash" "0 < Size file_badhash"
    "Offset file_badhash + Size file_badhash \<le> int (length (bytes ar_abc))"
    "take (nat (Size file_badhash)) (drop (nat (Offset file_badhash)) (bytes ar_abc)) = ''abc''"
    by code_simp+
  have bv: "ToLower lowerKelvin (sha1_hexdigest ''abc'') \<noteq> ToLower lowerKelvin (oSHA1Hash file_badhash)"
    "Name file_badhash = ''disk1.vmdk''"
    "oSHA1Hash file_badhash = ''A9993E364706816ABA3E25717850C26C9CD0D89E''"
    by code_simp+
  have b1: "ValidateFileChecksum sha1_hexdigest lowerKelvin (disk_of ar_abc) ''vm.ova'' file_badhash
       = Some (ChecksumMismatch ''disk1.vmdk'' ''A9993E364706816ABA3E25717850C26C9CD0D89E''
                 ''a9993e364706816aba3e25717850c26c9cd0d89d'')"
    using ValidateFileChecksum_cases [of file_badhash sha1_hexdigest lowerKelvin "disk_of ar_abc"
        "''vm.ova''" ar_abc] d b(1,2,4,5) bv b(3)
    by (simp add: sha1_hexdigest_vectors(2))
  have s: "oSHA1Hash file_shifted \<noteq> []" "0 \<le> Offset file_shifted" "0 < Size file_shifted"
    "Offset file_shifted + Size file_shifted \<le> int (length (bytes ar_abc))"
    "take (nat (Size file_shifted)) (drop (nat (Offset file_shifted)) (bytes ar_abc))
       = [CHR ''b'', CHR ''c'', CHR 0x00]"
    by code_simp+
  have sv: "sha1_hexdigest [CHR ''b'', CHR ''c'', CHR 0x00]
       = ''6e91ce6dfc892757e788dceee114304d9768ab88''"
    "ToLower lowerKelvin ''6e91ce6dfc892757e788dceee114304d9768ab88''
       \<noteq> ToLower lowerKelvin (oSHA1Hash file_shifted)"
    "Name file_shifted = ''disk1.vmdk''"
    "oSHA1Hash file_shifted = ''A9993E364706816ABA3E25717850C26C9CD0D89D''"
    by code_simp+
  have s1: "ValidateFileChecksum sha1_hexdigest lowerKelvin (disk_of ar_abc) ''vm.ova'' file_shifted
       = Some (ChecksumMismatch ''disk1.vmdk'' ''A9993E364706816ABA3E25717850C26C9CD0D89D''
                 ''6e91ce6dfc892757e788dceee114304d9768ab88'')"
    using ValidateFileChecksum_cases [of file_shifted sha1_hexdigest lowerKelvin "disk_of ar_abc"
        "''vm.ova''" ar_abc] d s(1,2,4,5) s(3) sv(2-4)
    by (simp add: sv(1))
  have g: "oSHA1Hash file_goodhash \<noteq> []" "0 \<le> Offset file_goodhash" "0 < Size file_goodhash"
    "Offset file_goodhash + Size file_goodhash \<le> int (length (bytes ar_abc))"
    "take (nat (Size file_goodhash)) (drop (nat (Offset file_goodhash)) (bytes ar_abc)) = ''abc''"
    by code_simp+
  have gv: "ToLower lowerKelvin (sha1_hexdigest ''abc'') = ToLower lowerKelvin (oSHA1Hash file_goodhash)"
    by code_simp
  have g1: "ValidateFileChecksum sha1_hexdigest lowerKelvin (disk_of ar_abc) ''vm.ova'' file_goodhash
       = None"
    using ValidateFileChecksum_cases [of file_goodhash sha1_hexdigest lowerKelvin "disk_of ar_abc"
        "''vm.ova''" ar_abc] d g(1,2,4,5) gv g(3)
    by simp
  from d n n1 n2 b b1 s s1 g g1 show ?thesis by simp
qed

section \<open>The chunk plan of the uploader\<close>

text \<open>The number of chunks of a payload of size \<open>S\<close> cut at \<open>C\<close>, and what it bounds.\<close>

lemma i64_range: "MinInt64 \<le> x \<Longrightarrow> x \<le> MaxInt64 \<Longrightarrow> i64 x = x"
  by (simp add: i64_id in_i64_def)

lemma ceil_div_bounds:
  fixes S C :: int
  assumes "0 < S" "0 < C"
  shows "0 < (S + C - 1) div C" "((S + C - 1) div C - 1) * C < S" "S \<le> (S + C - 1) div C * C"
proof -
  let ?n = "(S + C - 1) div C"
  have m: "(S + C - 1) mod C < C" "0 \<le> (S + C - 1) mod C"
    using assms(2) by simp_all
  have e: "?n * C + (S + C - 1) mod C = S + C - 1"
    by simp
  from e m show "S \<le> ?n * C" by linarith
  from e m have "?n * C - C < S" by linarith
  then show "(?n - 1) * C < S" by (simp add: algebra_simps)
  show "0 < ?n"
    using assms by (simp add: pos_imp_zdiv_pos_iff)
qed

lemma ceil_div_le:
  fixes S C :: int
  assumes "0 < S" "0 < C"
  shows "(S + C - 1) div C \<le> S"
proof -
  let ?n = "(S + C - 1) div C"
  have "0 \<le> ?n - 1" using ceil_div_bounds(1) [OF assms] by simp
  then have "(?n - 1) * 1 \<le> (?n - 1) * C"
    using assms(2) by (intro mult_left_mono) simp_all
  with ceil_div_bounds(2) [OF assms] show ?thesis by simp
qed

lemma chunk_before_end:
  fixes S C :: int
  assumes "0 < S" "0 < C" "int k < (S + C - 1) div C"
  shows "int k * C < S"
proof -
  have "int k \<le> (S + C - 1) div C - 1" using assms(3) by simp
  then have "int k * C \<le> ((S + C - 1) div C - 1) * C"
    using assms(2) by (intro mult_right_mono) simp_all
  with ceil_div_bounds(2) [OF assms(1,2)] show ?thesis by linarith
qed

text \<open>
  The loop from chunk \<open>k\<close> on, when no addition overflows: it appends the chunks
  \<open>k\<close> to \<open>n - 1\<close> and returns.
\<close>

lemma queueChunks_run:
  assumes "0 < S" "0 < C" "S + C \<le> MaxInt64" "0 \<le> off" "off + S \<le> MaxInt64"
    and "int n = (S + C - 1) div C" "k \<le> n" "k < n \<longrightarrow> cur = int k * C"
  shows "queueChunks C off S (int n) (int k + 1) cur q = Some (q @ map (chunkAt C off S) [k..<n])"
  using assms(7,8)
proof (induction "n - k" arbitrary: k cur q)
  case 0
  then have "k = n" by simp
  then show ?case by (subst queueChunks.simps) simp
next
  case (Suc d)
  then have kn: "k < n" and cur: "cur = int k * C" by simp_all
  have lt: "int k * C < S"
    using assms(1,2) kn assms(6) by (intro chunk_before_end) simp_all
  have nS: "int n \<le> S"
    using ceil_div_le [OF assms(1,2)] assms(6) by simp
  have c0: "0 \<le> cur" "cur < S"
    using lt assms(2) by (simp_all add: cur)
  have r1: "i64 (cur + C) = cur + C"
    using c0 assms(1-3) by (intro i64_range) (simp_all add: MinInt64_def MaxInt64_def)
  define sz where "sz = (if cur + C > S then i64 (S - cur) else C)"
  have "i64 (S - cur) = S - cur"
    using c0 assms(1-3) by (intro i64_range) (simp_all add: MinInt64_def MaxInt64_def)
  then have sz': "sz = min C (S - cur)"
    by (simp add: sz_def)
  then have sz: "sz = min C (S - int k * C)" by (simp add: cur)
  have r2: "i64 (off + cur) = off + cur"
    using c0 assms(1-5) by (intro i64_range) (simp_all add: MinInt64_def MaxInt64_def)
  have szpos: "0 < sz" "sz \<le> C" using sz' c0 assms(2) by simp_all
  have r3: "i64 (cur + sz) = cur + sz"
    using c0 assms(1-3) szpos by (intro i64_range) (simp_all add: MinInt64_def MaxInt64_def)
  have r4: "i64 (2 + int k) = 2 + int k"
    using kn nS assms(1-3) by (intro i64_range) (simp_all add: MinInt64_def MaxInt64_def)
  have next_cur: "Suc k < n \<longrightarrow> cur + sz = int (Suc k) * C"
  proof
    assume "Suc k < n"
    then have "int (Suc k) * C < S"
      using assms(1,2,6) by (intro chunk_before_end) simp_all
    then have "sz = C" unfolding sz by (simp add: algebra_simps)
    then show "cur + sz = int (Suc k) * C" by (simp add: cur algebra_simps)
  qed
  have c: "\<lparr>chunkNumber = int k + 1, ovaOffset = off + cur, chunkSize = sz\<rparr> = chunkAt C off S k"
    by (simp add: chunkAt_def sz cur)
  have "queueChunks C off S (int n) (int k + 1) cur q
      = queueChunks C off S (int n) (int (Suc k) + 1) (cur + sz) (q @ [chunkAt C off S k])"
    using kn by (subst queueChunks.simps) (simp add: Let_def r1 r2 r3 r4 sz_def [symmetric] c)
  also have "\<dots> = Some ((q @ [chunkAt C off S k]) @ map (chunkAt C off S) [Suc k..<n])"
    using Suc.hyps(2) kn next_cur by (intro Suc.hyps(1)) simp_all
  also have "\<dots> = Some (q @ map (chunkAt C off S) [k..<n])"
    using kn by (simp add: upt_conv_Cons)
  finally show ?case .
qed

lemma workQueue_chunks:
  assumes "0 < S" "0 < C" "S + C \<le> MaxInt64" "0 \<le> off" "off + S \<le> MaxInt64"
  shows "uploadFromOVAParallel_workQueue C off S
           = Some (Inr (map (chunkAt C off S) [0..<nat ((S + C - 1) div C)]))"
proof -
  let ?n = "nat ((S + C - 1) div C)"
  have pos: "0 < (S + C - 1) div C" by (rule ceil_div_bounds(1) [OF assms(1,2)])
  then have n: "int ?n = (S + C - 1) div C" by simp
  have "i64 (i64 (S + C) - 1) = S + C - 1"
    using assms(1-3) by (simp add: i64_id in_i64_def MinInt64_def MaxInt64_def)
  moreover have "(S + C - 1) div C \<le> S"
    by (rule ceil_div_le [OF assms(1,2)])
  ultimately have t: "quo (i64 (i64 (S + C) - 1)) C = int ?n"
    using assms(1-3) pos by (simp add: quo_def i64_id in_i64_def MinInt64_def MaxInt64_def)
  have "queueChunks C off S (int ?n) (int 0 + 1) 0 [] = Some ([] @ map (chunkAt C off S) [0..<?n])"
    using assms n by (intro queueChunks_run) simp_all
  then show ?thesis
    using assms(2) t by (simp add: uploadFromOVAParallel_workQueue_def Let_def)
qed

lemma last_chunk_size:
  fixes S C :: int
  assumes "0 < S" "0 < C"
  shows "S - ((S + C - 1) div C - 1) * C = (if S mod C = 0 then C else S mod C)"
proof -
  define L where "L = S - ((S + C - 1) div C - 1) * C"
  have pos: "0 < L" using ceil_div_bounds(2) [OF assms] by (simp add: L_def)
  have le: "L \<le> C" using ceil_div_bounds(3) [OF assms] by (simp add: L_def algebra_simps)
  have "L = S + (- ((S + C - 1) div C - 1)) * C"
    unfolding L_def by (simp only: mult_minus_left diff_conv_add_uminus)
  then have m: "L mod C = S mod C"
    by (simp only: mod_mult_self1)
  show ?thesis
  proof (cases "L = C")
    case True
    with m have "S mod C = 0" by simp
    with True show ?thesis by (simp add: L_def)
  next
    case False
    with pos le have "L < C" by simp
    with pos have "L mod C = L" by (intro mod_pos_pos_trivial) simp_all
    with pos m have "S mod C = L" "S mod C \<noteq> 0" by simp_all
    then show ?thesis by (simp add: L_def)
  qed
qed

text \<open>
  The chunk plan in parallel mode when \<open>S + C\<close> and \<open>off + S\<close> lie within
  \<^verbatim>\<open>int64\<close>: the queue is computed, starts at the payload's offset, is contiguous (each
  chunk starts where the one before ends, so the ranges are in ascending order, do not
  overlap and leave no gap), ends at the end of the payload, and every chunk has the size
  \<open>C\<close> except possibly the last, whose size is \<open>S mod C\<close> when that is not 0.
\<close>

lemma workQueue_partition:
  assumes "0 < S" "0 < C" "S + C \<le> MaxInt64" "0 \<le> off" "off + S \<le> MaxInt64"
  shows "\<exists>ws. uploadFromOVAParallel_workQueue C off S = Some (Inr ws)
     \<and> ws \<noteq> []
     \<and> ovaOffset (hd ws) = off
     \<and> (\<forall>i. Suc i < length ws \<longrightarrow>
           ovaOffset (ws ! Suc i) = ovaOffset (ws ! i) + chunkSize (ws ! i))
     \<and> ovaOffset (last ws) + chunkSize (last ws) = off + S
     \<and> (\<forall>i. Suc i < length ws \<longrightarrow> chunkSize (ws ! i) = C)
     \<and> chunkSize (last ws) = (if S mod C = 0 then C else S mod C)
     \<and> (\<forall>i < length ws. 0 < chunkSize (ws ! i))
     \<and> sorted_wrt (<) (map ovaOffset ws)
     \<and> map chunkNumber ws = map int [1..<Suc (length ws)]"
proof -
  define n where "n = nat ((S + C - 1) div C)"
  define ws where "ws = map (chunkAt C off S) [0..<n]"
  have pos: "0 < (S + C - 1) div C" by (rule ceil_div_bounds(1) [OF assms(1,2)])
  then have n: "int n = (S + C - 1) div C" "0 < n" by (simp_all add: n_def)
  have len: "length ws = n" by (simp add: ws_def)
  have nth: "ws ! i = chunkAt C off S i" if "i < n" for i
    using that by (simp add: ws_def)
  have full: "chunkSize (chunkAt C off S i) = C" if "Suc i < n" for i
  proof -
    have "int (Suc i) * C < S"
      using that n(1) assms(1,2) by (intro chunk_before_end) simp_all
    then show ?thesis by (simp add: chunkAt_def algebra_simps)
  qed
  have lastsz: "chunkSize (chunkAt C off S (n - 1)) = S - (int n - 1) * C"
  proof -
    have "S \<le> int n * C" using ceil_div_bounds(3) [OF assms(1,2)] n(1) by simp
    then have "S - (int n - 1) * C \<le> C" by (simp add: algebra_simps)
    then show ?thesis using n(2) by (simp add: chunkAt_def of_nat_diff)
  qed
  have l: "last ws = chunkAt C off S (n - 1)"
    using n(2) by (simp add: ws_def last_map last_upt)
  have h: "hd ws = chunkAt C off S 0"
    using n(2) by (simp add: ws_def hd_map upt_conv_Cons)
  have 1: "uploadFromOVAParallel_workQueue C off S = Some (Inr ws)"
    unfolding ws_def n_def using assms by (rule workQueue_chunks)
  have 2: "ws \<noteq> []" using len n(2) by auto
  have 3: "ovaOffset (hd ws) = off" by (simp add: h chunkAt_def)
  have 4: "ovaOffset (ws ! Suc i) = ovaOffset (ws ! i) + chunkSize (ws ! i)" if "Suc i < length ws" for i
  proof -
    from that have i: "Suc i < n" "i < n" by (simp_all add: len)
    have "ovaOffset (ws ! Suc i) = off + int (Suc i) * C" by (simp add: nth i chunkAt_def)
    moreover have "ovaOffset (ws ! i) = off + int i * C" by (simp add: nth i chunkAt_def)
    moreover have "chunkSize (ws ! i) = C" by (simp add: nth i full)
    ultimately show ?thesis by (simp add: algebra_simps)
  qed
  have 5: "ovaOffset (last ws) + chunkSize (last ws) = off + S"
  proof -
    have "ovaOffset (last ws) = off + (int n - 1) * C"
      using n(2) by (simp add: l chunkAt_def of_nat_diff)
    with lastsz show ?thesis by (simp add: l)
  qed
  have 6: "chunkSize (ws ! i) = C" if "Suc i < length ws" for i
    using that by (simp add: len nth full)
  have 7: "chunkSize (last ws) = (if S mod C = 0 then C else S mod C)"
    using last_chunk_size [OF assms(1,2)] lastsz by (simp add: l n(1))
  have 8: "0 < chunkSize (ws ! i)" if "i < length ws" for i
  proof -
    from that have i: "i < n" by (simp add: len)
    then have "int i * C < S" using n(1) assms(1,2) by (intro chunk_before_end) simp_all
    then show ?thesis using assms(2) by (simp add: nth i chunkAt_def)
  qed
  have 9: "sorted_wrt (<) (map ovaOffset ws)"
  proof -
    have "ovaOffset (ws ! i) < ovaOffset (ws ! j)" if "i < j" "j < length ws" for i j
    proof -
      from that have "i < n" "j < n" by (simp_all add: len)
      moreover have "int i * C < int j * C" using that(1) assms(2) by simp
      ultimately show ?thesis by (simp add: nth chunkAt_def)
    qed
    then show ?thesis by (simp add: sorted_wrt_iff_nth_less)
  qed
  have 10: "map chunkNumber ws = map int [1..<Suc (length ws)]"
  proof (rule nth_equalityI)
    show "length (map chunkNumber ws) = length (map int [1..<Suc (length ws)])"
      by (simp del: upt_Suc)
    fix i assume "i < length (map chunkNumber ws)"
    then have "i < n" by (simp add: len)
    then show "map chunkNumber ws ! i = map int [1..<Suc (length ws)] ! i"
      by (simp add: len nth chunkAt_def del: upt_Suc)
  qed
  show ?thesis
  proof (intro exI [of _ ws] conjI allI impI)
    show "uploadFromOVAParallel_workQueue C off S = Some (Inr ws)" by (rule 1)
    show "ws \<noteq> []" by (rule 2)
    show "ovaOffset (hd ws) = off" by (rule 3)
    show "ovaOffset (ws ! Suc i) = ovaOffset (ws ! i) + chunkSize (ws ! i)"
      if "Suc i < length ws" for i using that by (rule 4)
    show "ovaOffset (last ws) + chunkSize (last ws) = off + S" by (rule 5)
    show "chunkSize (ws ! i) = C" if "Suc i < length ws" for i using that by (rule 6)
    show "chunkSize (last ws) = (if S mod C = 0 then C else S mod C)" by (rule 7)
    show "0 < chunkSize (ws ! i)" if "i < length ws" for i using that by (rule 8)
    show "sorted_wrt (<) (map ovaOffset ws)" by (rule 9)
    show "map chunkNumber ws = map int [1..<Suc (length ws)]" by (rule 10)
  qed
qed

text \<open>
  C3. The claim promises the plan above for every payload size \<open>S > 0\<close> and every chunk
  size \<open>C > 0\<close>. The code computes the number of chunks as \<open>(S + C - 1) / C\<close> in
  \<^verbatim>\<open>int64\<close>, and the sum wraps around when \<open>S + C\<close> exceeds the largest
  \<^verbatim>\<open>int64\<close>. With the chunk size \<open>2^63 - 1\<close> and a payload of 100 bytes the number
  of chunks comes out as 0: nothing is queued, and the upload reports success. With a
  payload of 2 bytes it comes out as \<open>-1\<close> and making the queue panics. The sequential
  path, whose loop runs while bytes remain, uploads the 100 bytes as one chunk.
\<close>

theorem uploadFromOVAParallel_huge_chunk_size:
  "uploadFromOVAParallel_workQueue MaxInt64 0 100 = Some (Inr [])
   \<and> uploadFromOVAParallel_workQueue MaxInt64 0 2 = Some (Inl MakeChanSizeOutOfRange)
   \<and> uploadFromOVAChunked_chunks MaxInt64 0 100
       = Some (Inr [\<lparr>chunkNumber = 1, ovaOffset = 0, chunkSize = 100\<rparr>])"
  by code_simp

end
